theory Spec2Isabelle
  imports Main "HOL-Library.Word"
begin

section \<open>Values, errors and the crypto library\<close>

text \<open>
  The confidential storage core of coldProxy is TypeScript running on Bun. The embedding
  keeps three things of the JavaScript semantics explicit, because the claims depend on
  them:
  \<^item> a thrown exception (or a rejected promise that is awaited) is the \<open>Inl\<close> side of a
    sum, a normal completion the \<open>Inr\<close> side;
  \<^item> every method of \<open>CryptoService\<close> is declared \<open>async\<close>: calling it never throws
    and yields a promise object. A promise is represented by its settlement
    (\<open>Inl e\<close> rejected, \<open>Inr b\<close> fulfilled); only \<open>await\<close> turns it into bytes or a
    thrown error;
  \<^item> \<open>Date.now()\<close> is the argument \<open>now\<close> of each operation (milliseconds, one
    reading per call of a service method), and the random source of libsodium is a
    function of a draw counter kept in the state.
\<close>

type_synonym bytes = "8 word list"

text \<open>What a primitive of the crypto library throws.\<close>

datatype lib_error = DecryptFailed | BadInput

datatype error =
    AccountLocked
  | LibraryError lib_error
  | TypeError
  | Conflict
  | TooManyRequests
  | Forbidden
  | Unauthorized
  | ServiceUnavailable
  | BadRequest

text \<open>A runtime value held where the source's types say \<open>Uint8Array\<close>.\<close>

datatype jsval = Bytes bytes | Promise "error + bytes"

definition await :: "jsval \<Rightarrow> error + bytes" where
  "await v = (case v of Bytes b \<Rightarrow> Inr b | Promise r \<Rightarrow> r)"

text \<open>
  libsodium (\<open>libsodium-wrappers-sumo\<close>) is an external library: its primitives are
  parameters of the model. A key or salt argument is a \<open>jsval\<close>, since the source can
  hand a promise object to the library; what the library does with it is the
  parameter's business.
\<close>

record sodium =
  randombytes_buf :: "nat \<Rightarrow> nat \<Rightarrow> bytes"
  aead_encrypt :: "bytes \<Rightarrow> bytes \<Rightarrow> jsval \<Rightarrow> lib_error + bytes"
  aead_decrypt :: "bytes \<Rightarrow> bytes \<Rightarrow> jsval \<Rightarrow> lib_error + bytes"
  crypto_pwhash :: "string \<Rightarrow> jsval \<Rightarrow> lib_error + bytes"

text \<open>The outcome of a library call inside an \<open>async\<close> body, as the promise settles.\<close>

definition settle :: "lib_error + bytes \<Rightarrow> error + bytes" where
  "settle r = (case r of Inl e \<Rightarrow> Inl (LibraryError e) | Inr b \<Rightarrow> Inr b)"

text \<open>
  A small instance of the library, used to run the services on concrete inputs: the
  "ciphertext" is the plaintext behind the key and the nonce, so decryption succeeds
  exactly under the key and nonce of the encryption. Like libsodium it refuses a key or
  salt that is not a byte array.
\<close>

definition toy_sodium :: sodium where
  "toy_sodium =
     \<lparr>randombytes_buf = (\<lambda>draw len. replicate len (of_nat draw)),
      aead_encrypt = (\<lambda>m n k. case k of
          Bytes kb \<Rightarrow> Inr (kb @ n @ m)
        | Promise p \<Rightarrow> Inl BadInput),
      aead_decrypt = (\<lambda>c n k. case k of
          Bytes kb \<Rightarrow>
            (if take (length kb + length n) c = kb @ n
             then Inr (drop (length kb + length n) c) else Inl DecryptFailed)
        | Promise p \<Rightarrow> Inl BadInput),
      crypto_pwhash = (\<lambda>pin s. case s of
          Bytes sb \<Rightarrow> Inr (take 32 (map (\<lambda>c. of_nat (of_char c)) pin @ sb @ replicate 32 0))
        | Promise p \<Rightarrow> Inl BadInput)\<rparr>"

section \<open>Key store\<close>

text \<open>
  A row of table \<open>key_store\<close>. The nonce and the salt are kept as the bytes they encode
  (the hex text written by \<open>toString("hex")\<close> and read back by \<open>Buffer.from(_, "hex")\<close>),
  and \<open>meta\<close> as the object that \<open>JSON.stringify\<close> wrote and \<open>JSON.parse\<close> reads back.
\<close>

record meta_json =
  salt :: "bytes option"
  version :: "int option"

record KeyStoreItem =
  item_id :: string
  item_type :: string
  blob :: bytes
  nonce :: bytes
  meta :: "meta_json option"

type_synonym key_store = "string \<rightharpoonup> KeyStoreItem"

definition findById :: "key_store \<Rightarrow> string \<Rightarrow> KeyStoreItem option" where
  "findById ks i = ks i"

text \<open>
  Modelled from the spec: the table's schema is not part of the sources; section 6 gives
  \<open>id TEXT PK\<close> and section 4.2 that \<open>create\<close> fails with \<open>Conflict\<close> when the id exists.
\<close>

definition create :: "key_store \<Rightarrow> KeyStoreItem \<Rightarrow> error + key_store" where
  "create ks item =
     (case ks (item_id item) of
        Some old \<Rightarrow> Inl Conflict
      | None \<Rightarrow> Inr (ks(item_id item \<mapsto> item)))"

section \<open>CryptoService\<close>

text \<open>
  Each method is \<open>async\<close>: the result is a promise of what the body computes. The state
  is the draw counter of the random source.
\<close>

definition generateKey :: "sodium \<Rightarrow> nat \<Rightarrow> nat \<Rightarrow> jsval \<times> nat" where
  "generateKey sod len draws = (Promise (Inr (randombytes_buf sod draws len)), Suc draws)"

definition aeadEncrypt :: "sodium \<Rightarrow> bytes \<Rightarrow> bytes \<Rightarrow> jsval \<Rightarrow> jsval" where
  "aeadEncrypt sod plaintext n k = Promise (settle (aead_encrypt sod plaintext n k))"

definition aeadDecrypt :: "sodium \<Rightarrow> bytes \<Rightarrow> bytes \<Rightarrow> jsval \<Rightarrow> jsval" where
  "aeadDecrypt sod ciphertext n k = Promise (settle (aead_decrypt sod ciphertext n k))"

definition deriveKeyFromPin :: "sodium \<Rightarrow> string \<Rightarrow> jsval \<Rightarrow> jsval" where
  "deriveKeyFromPin sod pin s = Promise (settle (crypto_pwhash sod pin s))"

text \<open>\<open>wrapKey\<close> awaits the nonce and the ciphertext; its promise carries both.\<close>

definition wrapKey ::
  "sodium \<Rightarrow> bytes \<Rightarrow> jsval \<Rightarrow> nat \<Rightarrow> (error + bytes \<times> bytes) \<times> nat" where
  "wrapKey sod keyToWrap wrappingKey draws =
     (case generateKey sod 24 draws of
        (np, draws') \<Rightarrow>
          (case await np of
             Inl e \<Rightarrow> (Inl e, draws')
           | Inr n \<Rightarrow>
               (case await (aeadEncrypt sod keyToWrap n wrappingKey) of
                  Inl e \<Rightarrow> (Inl e, draws')
                | Inr ciphertext \<Rightarrow> (Inr (ciphertext, n), draws'))))"

text \<open>
  \<open>unwrapKey\<close> is \<open>async\<close> too: the call completes normally with a promise, whatever the
  decryption does. Its result is written as a completion so that a \<open>try\<close> around the
  call keeps its \<open>catch\<close> branch in the model.
\<close>

definition unwrapKey :: "sodium \<Rightarrow> bytes \<Rightarrow> bytes \<Rightarrow> jsval \<Rightarrow> error + jsval" where
  "unwrapKey sod ciphertext n wrappingKey = Inr (aeadDecrypt sod ciphertext n wrappingKey)"

section \<open>JavaScript \<open>Map\<close> in insertion order\<close>

text \<open>
  \<open>mkCache\<close> is a \<open>Map\<close> whose iteration order the eviction reads, so it is an association
  list in insertion order: \<open>set\<close> on a present key replaces the value in place, on an
  absent key appends; \<open>delete\<close> removes the key.
\<close>

fun map_set :: "('k \<times> 'v) list \<Rightarrow> 'k \<Rightarrow> 'v \<Rightarrow> ('k \<times> 'v) list" where
  "map_set [] k v = [(k, v)]"
| "map_set ((k', v') # m) k v =
     (if k' = k then (k, v) # m else (k', v') # map_set m k v)"

fun map_delete :: "('k \<times> 'v) list \<Rightarrow> 'k \<Rightarrow> ('k \<times> 'v) list" where
  "map_delete [] k = []"
| "map_delete ((k', v') # m) k =
     (if k' = k then map_delete m k else (k', v') # map_delete m k)"

definition map_get :: "('k \<times> 'v) list \<Rightarrow> 'k \<Rightarrow> 'v option" where
  "map_get m k = map_of m k"

section \<open>UnlockService\<close>

record cache_entry =
  key :: jsval
  expires :: int

record failure_info =
  count :: int
  lastAttempt :: int

text \<open>
  The state the unlock and setup services work on: the key store of the database, the
  draw counter of the random source, and the two in-memory maps of \<open>UnlockService\<close>.
\<close>

record world =
  keyStore :: key_store
  entropy :: nat
  mkCache :: "(string \<times> cache_entry) list"
  pinFailures :: "string \<rightharpoonup> failure_info"

definition mkCacheTTL :: int where
  "mkCacheTTL = 30 * 60 * 1000"

definition pinLockoutDuration :: int where
  "pinLockoutDuration = 15 * 60 * 1000"

definition maxPinAttempts :: int where
  "maxPinAttempts = 5"

definition getMasterKeyFromCache ::
  "int \<Rightarrow> string \<Rightarrow> (string \<times> cache_entry) list \<Rightarrow> jsval option \<times> (string \<times> cache_entry) list" where
  "getMasterKeyFromCache now userId c =
     (case map_get c userId of
        Some cached \<Rightarrow>
          if expires cached > now
          then (Some (key cached), map_set c userId (cached\<lparr>expires := now + mkCacheTTL\<rparr>))
          else (None, map_delete c userId)
      | None \<Rightarrow> (None, map_delete c userId))"

definition setMasterKeyInCache ::
  "int \<Rightarrow> string \<Rightarrow> jsval \<Rightarrow> (string \<times> cache_entry) list \<Rightarrow> (string \<times> cache_entry) list" where
  "setMasterKeyInCache now userId k c =
     (let c1 = (if length c \<ge> 100
                then (case c of [] \<Rightarrow> c | (oldestKey, e) # rest \<Rightarrow> map_delete c oldestKey)
                else c)
      in map_set c1 userId \<lparr>key = k, expires = now + mkCacheTTL\<rparr>)"

definition locked :: "int \<Rightarrow> failure_info option \<Rightarrow> bool" where
  "locked now failureInfo =
     (case failureInfo of
        None \<Rightarrow> False
      | Some f \<Rightarrow> count f \<ge> maxPinAttempts \<and> now - lastAttempt f < pinLockoutDuration)"

definition unlockWithPin ::
  "sodium \<Rightarrow> int \<Rightarrow> string \<Rightarrow> string \<Rightarrow> world \<Rightarrow> (error + bool) \<times> world" where
  "unlockWithPin sod now userId pin w =
     (let failureInfo = pinFailures w userId in
      if locked now failureInfo then (Inl AccountLocked, w)
      else
        (case (case findById (keyStore w) (''mk_pin_'' @ userId) of
                 None \<Rightarrow> None
               | Some item \<Rightarrow> (case meta item of None \<Rightarrow> None | Some m \<Rightarrow> Some (item, m))) of
           None \<Rightarrow>
             (case generateKey sod 16 (entropy w) of
                (throwaway, draws') \<Rightarrow>
                  (case await (deriveKeyFromPin sod pin throwaway) of
                     Inl e \<Rightarrow> (Inl e, w\<lparr>entropy := draws'\<rparr>)
                   | Inr dummy \<Rightarrow> (Inr False, w\<lparr>entropy := draws'\<rparr>)))
         | Some (wrappedMkItem, m) \<Rightarrow>
             (case salt m of
                None \<Rightarrow> (Inl TypeError, w)
              | Some saltBytes \<Rightarrow>
                  (case await (deriveKeyFromPin sod pin (Bytes saltBytes)) of
                     Inl e \<Rightarrow> (Inl e, w)
                   | Inr kek \<Rightarrow>
                       (case unwrapKey sod (blob wrappedMkItem) (nonce wrappedMkItem) (Bytes kek) of
                          Inr mk \<Rightarrow>
                            (Inr True,
                             w\<lparr>mkCache := setMasterKeyInCache now userId mk (mkCache w),
                               pinFailures := (pinFailures w)(userId := None)\<rparr>)
                        | Inl caught \<Rightarrow>
                            (Inr False,
                             w\<lparr>pinFailures := (pinFailures w)(userId \<mapsto>
                                 \<lparr>count = (case failureInfo of None \<Rightarrow> 0 | Some f \<Rightarrow> count f) + 1,
                                  lastAttempt = now\<rparr>)\<rparr>))))))"

definition getDecryptedDek ::
  "sodium \<Rightarrow> int \<Rightarrow> string \<Rightarrow> world \<Rightarrow> jsval option \<times> world" where
  "getDecryptedDek sod now userId w =
     (case getMasterKeyFromCache now userId (mkCache w) of
        (None, c') \<Rightarrow> (None, w\<lparr>mkCache := c'\<rparr>)
      | (Some mk, c') \<Rightarrow>
          (case findById (keyStore w) (''dek_'' @ userId) of
             None \<Rightarrow> (None, w\<lparr>mkCache := c'\<rparr>)
           | Some wrappedDekItem \<Rightarrow>
               (case unwrapKey sod (blob wrappedDekItem) (nonce wrappedDekItem) mk of
                  Inr dek \<Rightarrow> (Some dek, w\<lparr>mkCache := c'\<rparr>)
                | Inl caught \<Rightarrow> (None, w\<lparr>mkCache := c'\<rparr>))))"

section \<open>SetupService\<close>

definition setPin :: "sodium \<Rightarrow> string \<Rightarrow> string \<Rightarrow> world \<Rightarrow> (error + unit) \<times> world" where
  "setPin sod userId pin w =
     (case generateKey sod 32 (entropy w) of (mkP, d1) \<Rightarrow>
     (case generateKey sod 32 d1 of (dekP, d2) \<Rightarrow>
     (case await mkP of Inl e \<Rightarrow> (Inl e, w\<lparr>entropy := d2\<rparr>) | Inr mk \<Rightarrow>
     (case await dekP of Inl e \<Rightarrow> (Inl e, w\<lparr>entropy := d2\<rparr>) | Inr dek \<Rightarrow>
     (case wrapKey sod dek (Bytes mk) d2 of
        (Inl e, d3) \<Rightarrow> (Inl e, w\<lparr>entropy := d3\<rparr>)
      | (Inr (dekCipher, dekNonce), d3) \<Rightarrow>
     (case create (keyStore w)
             \<lparr>item_id = ''dek_'' @ userId, item_type = ''data_encryption_key'',
              blob = dekCipher, nonce = dekNonce,
              meta = Some \<lparr>salt = None, version = Some 1\<rparr>\<rparr> of
        Inl e \<Rightarrow> (Inl e, w\<lparr>entropy := d3\<rparr>)
      | Inr ks1 \<Rightarrow>
     (case generateKey sod 16 d3 of (saltP, d4) \<Rightarrow>
     (case await saltP of
        Inl e \<Rightarrow> (Inl e, w\<lparr>keyStore := ks1, entropy := d4\<rparr>)
      | Inr saltBytes \<Rightarrow>
     (case await (deriveKeyFromPin sod pin (Bytes saltBytes)) of
        Inl e \<Rightarrow> (Inl e, w\<lparr>keyStore := ks1, entropy := d4\<rparr>)
      | Inr kek \<Rightarrow>
     (case wrapKey sod mk (Bytes kek) d4 of
        (Inl e, d5) \<Rightarrow> (Inl e, w\<lparr>keyStore := ks1, entropy := d5\<rparr>)
      | (Inr (mkCipher, mkNonce), d5) \<Rightarrow>
     (case create ks1
             \<lparr>item_id = ''mk_pin_'' @ userId, item_type = ''master_key_pin'',
              blob = mkCipher, nonce = mkNonce,
              meta = Some \<lparr>salt = Some saltBytes, version = None\<rparr>\<rparr> of
        Inl e \<Rightarrow> (Inl e, w\<lparr>keyStore := ks1, entropy := d5\<rparr>)
      | Inr ks2 \<Rightarrow> (Inr (), w\<lparr>keyStore := ks2, entropy := d5\<rparr>))))))))))))"

section \<open>HTTP middleware\<close>

text \<open>
  A request carries its headers under lower-case names (\<open>Headers.get\<close> ignores case). A
  handler works on the state of the API layer and either throws (\<open>Inl\<close>) or returns a
  response (\<open>Inr\<close>); \<open>'a\<close> is the state of everything behind the handlers, \<open>'r\<close> the
  responses they build.
\<close>

record request =
  http_method :: string
  pathname :: string
  headers :: "string \<rightharpoonup> string"

record session =
  session_userId :: "string option"
  session_challenge :: "string option"
  lastUVAt :: "int option"

record RateLimitInfo =
  req_count :: int
  startTime :: int

record RateLimiter =
  store :: "string \<rightharpoonup> RateLimitInfo"
  maxRequests :: int
  windowMs :: int

record 'a api_state =
  killSwitch :: bool
  unlockRateLimiter :: RateLimiter
  exportRateLimiter :: RateLimiter
  sessions :: "string \<rightharpoonup> session"
  app :: 'a

type_synonym ('a, 'r) handler = "request \<Rightarrow> 'a api_state \<Rightarrow> (error + 'r) \<times> 'a api_state"

subsection \<open>Rate limiter\<close>

text \<open>Field \<open>req_count\<close> is \<open>count\<close> of \<open>RateLimitInfo\<close> in the source.\<close>

definition limit :: "int \<Rightarrow> string \<Rightarrow> RateLimiter \<Rightarrow> bool \<times> RateLimiter" where
  "limit now k rl =
     (let windowStart = now - windowMs rl;
          info = (case store rl k of
                    Some i \<Rightarrow> i
                  | None \<Rightarrow> \<lparr>req_count = 0, startTime = now\<rparr>);
          info1 = (if startTime info < windowStart
                   then \<lparr>req_count = 0, startTime = now\<rparr> else info);
          info2 = info1\<lparr>req_count := req_count info1 + 1\<rparr>
      in (req_count info2 > maxRequests rl, rl\<lparr>store := (store rl)(k \<mapsto> info2)\<rparr>))"

text \<open>\<open>a || b\<close> on header values: \<open>null\<close> and the empty string are falsy.\<close>

definition header_or :: "string option \<Rightarrow> string \<Rightarrow> string" where
  "header_or h other = (case h of None \<Rightarrow> other | Some v \<Rightarrow> if v = [] then other else v)"

definition clientKey :: "request \<Rightarrow> string" where
  "clientKey req =
     header_or (headers req ''x-forwarded-for'') (header_or (headers req ''x-real-ip'') ''unknown'')"

text \<open>
  The router owns two limiter objects; a middleware is created over one of them. The
  reference is a tag, read and written through the state.
\<close>

datatype limiter_ref = UnlockLimiter | ExportLimiter

definition get_limiter :: "limiter_ref \<Rightarrow> 'a api_state \<Rightarrow> RateLimiter" where
  "get_limiter r st = (case r of UnlockLimiter \<Rightarrow> unlockRateLimiter st | ExportLimiter \<Rightarrow> exportRateLimiter st)"

definition put_limiter :: "limiter_ref \<Rightarrow> RateLimiter \<Rightarrow> 'a api_state \<Rightarrow> 'a api_state" where
  "put_limiter r rl st =
     (case r of UnlockLimiter \<Rightarrow> st\<lparr>unlockRateLimiter := rl\<rparr> | ExportLimiter \<Rightarrow> st\<lparr>exportRateLimiter := rl\<rparr>)"

definition createRateLimitMiddleware ::
  "int \<Rightarrow> limiter_ref \<Rightarrow> ('a, 'r) handler \<Rightarrow> ('a, 'r) handler" where
  "createRateLimitMiddleware now r handler req st =
     (let ip = clientKey req in
      case limit now ip (get_limiter r st) of
        (over, rl') \<Rightarrow>
          if over then (Inl TooManyRequests, put_limiter r rl' st)
          else handler req (put_limiter r rl' st))"

subsection \<open>Kill switch\<close>

definition createKillSwitchMiddleware :: "('a, 'r) handler \<Rightarrow> ('a, 'r) handler" where
  "createKillSwitchMiddleware handler req st =
     (if killSwitch st then (Inl ServiceUnavailable, st) else handler req st)"

subsection \<open>Sessions and fresh WebAuthn\<close>

text \<open>
  \<open>cookie.match(/session_id=([^;]+)/)\<close>: the leftmost place where \<open>session_id=\<close> is
  followed by at least one character other than \<open>;\<close>; the group is the longest run of
  such characters.
\<close>

fun match_session_id :: "string \<Rightarrow> string option" where
  "match_session_id [] = None"
| "match_session_id (c # cs) =
     (if take 11 (c # cs) = ''session_id='' \<and> takeWhile (\<lambda>x. x \<noteq> CHR '';'') (drop 11 (c # cs)) \<noteq> []
      then Some (takeWhile (\<lambda>x. x \<noteq> CHR '';'') (drop 11 (c # cs)))
      else match_session_id cs)"

definition getSessionId :: "request \<Rightarrow> string option" where
  "getSessionId req =
     (case headers req ''cookie'' of
        None \<Rightarrow> None
      | Some cookie \<Rightarrow> if cookie = [] then None else match_session_id cookie)"

definition empty_session :: session where
  "empty_session = \<lparr>session_userId = None, session_challenge = None, lastUVAt = None\<rparr>"

definition getSession :: "(string \<rightharpoonup> session) \<Rightarrow> request \<Rightarrow> session" where
  "getSession ss req =
     (case getSessionId req of
        None \<Rightarrow> empty_session
      | Some sessionId \<Rightarrow> (case ss sessionId of Some s \<Rightarrow> s | None \<Rightarrow> empty_session))"

definition FRESH_WEBAUTHN_TTL :: int where
  "FRESH_WEBAUTHN_TTL = 5 * 60 * 1000"

text \<open>\<open>!session.lastUVAt\<close> holds for a field that is unset and for the number 0.\<close>

definition requireFreshWebAuthn :: "int \<Rightarrow> ('a, 'r) handler \<Rightarrow> ('a, 'r) handler" where
  "requireFreshWebAuthn now handler req st =
     (let s = getSession (sessions st) req in
      case lastUVAt s of
        None \<Rightarrow> (Inl Forbidden, st)
      | Some t \<Rightarrow>
          if t = 0 then (Inl Forbidden, st)
          else if now - t > FRESH_WEBAUTHN_TTL then (Inl Forbidden, st)
          else handler req st)"

subsection \<open>Router\<close>

text \<open>
  The routes that \<open>registerHandlers\<close> wraps in middleware of this core. The handlers
  themselves are parameters. The other entries of the table (health, stats, accounts,
  ...) carry none of these middlewares and are left out.
\<close>

record ('a, 'r) handlers =
  unlockPinHandler :: "('a, 'r) handler"
  webauthnChallengeHandler :: "('a, 'r) handler"
  webauthnFinishHandler :: "('a, 'r) handler"
  setKillSwitchHandler :: "('a, 'r) handler"
  exportHandler :: "('a, 'r) handler"
  rotateKeyHandler :: "('a, 'r) handler"
  decryptHandler :: "('a, 'r) handler"

definition registerHandlers :: "int \<Rightarrow> ('a, 'r) handlers \<Rightarrow> string \<Rightarrow> ('a, 'r) handler option" where
  "registerHandlers now hs k =
     (if k = ''POST:/unlock/pin'' then
        Some (createKillSwitchMiddleware
               (createRateLimitMiddleware now UnlockLimiter (unlockPinHandler hs)))
      else if k = ''POST:/unlock/webauthn/challenge'' then
        Some (createKillSwitchMiddleware
               (createRateLimitMiddleware now UnlockLimiter (webauthnChallengeHandler hs)))
      else if k = ''POST:/unlock/webauthn/finish'' then
        Some (createKillSwitchMiddleware
               (createRateLimitMiddleware now UnlockLimiter (webauthnFinishHandler hs)))
      else if k = ''POST:/api/admin/kill-switch'' then
        Some (requireFreshWebAuthn now (setKillSwitchHandler hs))
      else if k = ''GET:/export'' then
        Some (createKillSwitchMiddleware
               (createRateLimitMiddleware now ExportLimiter
                 (requireFreshWebAuthn now (exportHandler hs))))
      else if k = ''POST:/rotate-key'' then
        Some (createKillSwitchMiddleware (requireFreshWebAuthn now (rotateKeyHandler hs)))
      else if k = ''GET:/decrypt/:id'' then
        Some (createKillSwitchMiddleware (decryptHandler hs))
      else None)"

text \<open>\<open>uuid\<close> is the value \<open>randomUUID()\<close> returns.\<close>

definition createRequestIdMiddleware :: "string \<Rightarrow> ('a, 'r) handler \<Rightarrow> ('a, 'r) handler" where
  "createRequestIdMiddleware uuid handler req st =
     (case headers req ''x-request-id'' of
        Some present \<Rightarrow> handler req st
      | None \<Rightarrow> handler (req\<lparr>headers := (headers req)(''x-request-id'' \<mapsto> uuid)\<rparr>) st)"

text \<open>
  \<open>wrapHandler\<close> turns a thrown error into \<open>errorResponse(error)\<close>; that function is not
  part of the sources, so the response to an error stays the error.
\<close>

definition handleRequest ::
  "int \<Rightarrow> string \<Rightarrow> ('a, 'r) handlers \<Rightarrow> request \<Rightarrow> 'a api_state \<Rightarrow> (error + 'r) option \<times> 'a api_state" where
  "handleRequest now uuid hs req st =
     (case registerHandlers now hs (http_method req @ '':'' @ pathname req) of
        Some handler \<Rightarrow>
          (case createRequestIdMiddleware uuid handler req st of (res, st') \<Rightarrow> (Some res, st'))
      | None \<Rightarrow> (None, st))"

definition newRouterLimiters :: "'a api_state \<Rightarrow> 'a api_state" where
  "newRouterLimiters st =
     st\<lparr>unlockRateLimiter := \<lparr>store = Map.empty, maxRequests = 5, windowMs = 60000\<rparr>,
        exportRateLimiter := \<lparr>store = Map.empty, maxRequests = 2, windowMs = 60000\<rparr>\<rparr>"

section \<open>AsyncDbWriter\<close>

text \<open>
  Jobs are opaque (\<open>'j\<close>); \<open>started\<close> lists the jobs that \<open>processQueue\<close> has called, in
  order. \<open>processQueue\<close> is \<open>async\<close>: a call runs up to its first \<open>await job()\<close> and is
  resumed when that job settles (a rejection is caught and logged), so the model has one
  function for a call and one for a resumption. Logging is left out.
\<close>

record 'j writer =
  queue :: "'j list"
  running :: bool
  intervalId :: "nat option"
  maxQueueSize :: nat
  queueDepth :: nat
  droppedJobs :: nat
  totalJobs :: nat
  started :: "'j list"

definition newAsyncDbWriter :: "nat \<Rightarrow> 'j writer" where
  "newAsyncDbWriter maxSize =
     \<lparr>queue = [], running = False, intervalId = Some 1, maxQueueSize = maxSize,
      queueDepth = 0, droppedJobs = 0, totalJobs = 0, started = []\<rparr>"

text \<open>
  The head of the \<open>while\<close> loop: with a job queued it shifts and calls the job and waits at
  the \<open>await\<close>; with the queue empty it leaves the loop through \<open>finally\<close>.
\<close>

definition loop_head :: "'j writer \<Rightarrow> 'j writer" where
  "loop_head w =
     (case queue w of
        [] \<Rightarrow> w\<lparr>running := False\<rparr>
      | job # rest \<Rightarrow> w\<lparr>queue := rest, started := started w @ [job]\<rparr>)"

text \<open>A call of \<open>processQueue\<close>, up to its return or its first \<open>await\<close>.\<close>

definition processQueue :: "'j writer \<Rightarrow> 'j writer" where
  "processQueue w =
     (if running w \<or> queue w = [] then w else loop_head (w\<lparr>running := True\<rparr>))"

text \<open>The job awaited by the running loop has settled.\<close>

definition job_settled :: "'j writer \<Rightarrow> 'j writer" where
  "job_settled w = (if running w then loop_head w else w)"

definition enqueue :: "'j \<Rightarrow> 'j writer \<Rightarrow> bool \<times> 'j writer" where
  "enqueue job w =
     (let w1 = w\<lparr>totalJobs := totalJobs w + 1, queueDepth := length (queue w)\<rparr> in
      if queueDepth w1 \<ge> maxQueueSize w1
      then (False, w1\<lparr>droppedJobs := droppedJobs w1 + 1\<rparr>)
      else (True, processQueue (w1\<lparr>queue := queue w1 @ [job]\<rparr>)))"

text \<open>
  The loop run to its end by the call that entered it, every awaited job settling and
  nothing else touching the queue meanwhile.
\<close>

function run_loop :: "'j writer \<Rightarrow> 'j writer" where
  "run_loop w = (if queue w = [] then loop_head w else run_loop (loop_head w))"
  by pat_completeness auto
termination
  by (relation "measure (\<lambda>w. length (queue w))") (auto simp: loop_head_def split: list.splits)

text \<open>
  \<open>dispose\<close> clears the interval and awaits one call of \<open>processQueue\<close>. When that call
  returns at once (a loop is already running, or the queue is empty), \<open>dispose\<close> returns
  with the state as it is; otherwise it returns when the loop it entered has ended.
\<close>

definition dispose :: "'j writer \<Rightarrow> 'j writer" where
  "dispose w =
     (let w1 = w\<lparr>intervalId := None\<rparr> in
      if running w1 \<or> queue w1 = [] then w1 else run_loop (loop_head (w1\<lparr>running := True\<rparr>)))"

section \<open>Concrete inputs\<close>

text \<open>States and inputs on which the theorems below are instantiated.\<close>

definition world0 :: world where
  "world0 = \<lparr>keyStore = Map.empty, entropy = 0, mkCache = [], pinFailures = Map.empty\<rparr>"

definition full_cache :: "(string \<times> cache_entry) list" where
  "full_cache = map (\<lambda>i. (replicate (Suc i) CHR ''x'', \<lparr>key = Bytes [], expires = 0\<rparr>)) [0..<100]"

definition warm_cache :: "(string \<times> cache_entry) list" where
  "warm_cache = [(''u1'', \<lparr>key = Bytes [7], expires = 1000\<rparr>)]"

text \<open>A caller that makes one unlock attempt after the other for the same user.\<close>

fun unlock_attempts ::
  "sodium \<Rightarrow> string \<Rightarrow> (int \<times> string) list \<Rightarrow> world \<Rightarrow> (error + bool) list \<times> world" where
  "unlock_attempts sod userId [] w = ([], w)"
| "unlock_attempts sod userId ((now, pin) # rest) w =
     (case unlockWithPin sod now userId pin w of
        (r, w') \<Rightarrow>
          (case unlock_attempts sod userId rest w' of (rs, w'') \<Rightarrow> (r # rs, w'')))"

text \<open>The state after \<open>setPin("u1", "1234")\<close> on the empty state, under the small library.\<close>

definition world1 :: world where
  "world1 = snd (setPin toy_sodium ''u1'' ''1234'' world0)"

definition locked_world :: world where
  "locked_world = world1\<lparr>pinFailures := [''u1'' \<mapsto> \<lparr>count = 5, lastAttempt = 1000\<rparr>]\<rparr>"

definition mk_pin_u1 :: KeyStoreItem where
  "mk_pin_u1 =
     \<lparr>item_id = ''mk_pin_u1'', item_type = ''master_key_pin'',
           blob = take 32 (map (\<lambda>c. of_nat (of_char c)) ''1234'' @ replicate 16 3 @ replicate 32 0)
                  @ replicate 24 4 @ replicate 32 0,
           nonce = replicate 24 4,
           meta = Some \<lparr>salt = Some (replicate 16 3), version = None\<rparr>\<rparr>"

definition kek_of :: "string \<Rightarrow> bytes" where
  "kek_of pin = take 32 (map (\<lambda>c. of_nat (of_char c)) pin @ replicate 16 3 @ replicate 32 0)"

definition six_attempts :: "(int \<times> string) list" where
  "six_attempts = [(1000, ''0000''), (2000, ''0001''), (3000, ''0002''), (4000, ''0003''),
                   (5000, ''0004''), (6000, ''0005'')]"

text \<open>
  Handlers that answer every request and count their invocations in the state behind
  them.
\<close>

definition counting_handler :: "(nat, string) handler" where
  "counting_handler req st = (Inr ''ok'', st\<lparr>app := Suc (app st)\<rparr>)"

definition counting_handlers :: "(nat, string) handlers" where
  "counting_handlers =
     \<lparr>unlockPinHandler = counting_handler, webauthnChallengeHandler = counting_handler,
      webauthnFinishHandler = counting_handler, setKillSwitchHandler = counting_handler,
      exportHandler = counting_handler, rotateKeyHandler = counting_handler,
      decryptHandler = counting_handler\<rparr>"

text \<open>
  The API state of a new router: kill switch off, both limiters empty, one session whose
  last user verification was at time 1000000.
\<close>

definition api0 :: "nat api_state" where
  "api0 =
     \<lparr>killSwitch = False,
      unlockRateLimiter = \<lparr>store = Map.empty, maxRequests = 5, windowMs = 60000\<rparr>,
      exportRateLimiter = \<lparr>store = Map.empty, maxRequests = 2, windowMs = 60000\<rparr>,
      sessions = [''abc'' \<mapsto> \<lparr>session_userId = Some ''u1'', session_challenge = None,
                               lastUVAt = Some 1000000\<rparr>],
      app = 0\<rparr>"

definition pin_request :: request where
  "pin_request =
     \<lparr>http_method = ''POST'', pathname = ''/unlock/pin'',
      headers = [''x-forwarded-for'' \<mapsto> ''10.0.0.1'']\<rparr>"

definition cookie_request :: request where
  "cookie_request =
     \<lparr>http_method = ''POST'', pathname = ''/api/admin/kill-switch'',
      headers = [''cookie'' \<mapsto> ''theme=dark; session_id=abc; lang=en'']\<rparr>"

definition plain_request :: request where
  "plain_request =
     \<lparr>http_method = ''POST'', pathname = ''/api/admin/kill-switch'', headers = Map.empty\<rparr>"

text \<open>Successive calls of \<open>limit\<close> for one key, at the given times.\<close>

fun limit_all :: "RateLimiter \<Rightarrow> string \<Rightarrow> int list \<Rightarrow> bool list \<times> RateLimiter" where
  "limit_all rl k [] = ([], rl)"
| "limit_all rl k (now # rest) =
     (case limit now k rl of
        (over, rl') \<Rightarrow> (case limit_all rl' k rest of (overs, rl'') \<Rightarrow> (over # overs, rl'')))"

text \<open>Successive requests through the router, each at its own time.\<close>

fun serve ::
  "string \<Rightarrow> ('a, 'r) handlers \<Rightarrow> (int \<times> request) list \<Rightarrow> 'a api_state \<Rightarrow>
   (error + 'r) option list \<times> 'a api_state" where
  "serve uuid hs [] st = ([], st)"
| "serve uuid hs ((now, req) # rest) st =
     (case handleRequest now uuid hs req st of
        (res, st') \<Rightarrow> (case serve uuid hs rest st' of (ress, st'') \<Rightarrow> (res # ress, st'')))"

text \<open>
  Seven requests to \<open>/unlock/pin\<close> from one address: one at time 0, four at 59999 ms and
  two at 60001 ms.
\<close>

definition burst :: "(int \<times> request) list" where
  "burst = [(0, pin_request), (59999, pin_request), (59999, pin_request), (59999, pin_request),
            (59999, pin_request), (60001, pin_request), (60001, pin_request)]"

text \<open>Six requests to \<open>/unlock/pin\<close> from one address within 60 seconds of the first.\<close>

definition six_requests :: "(int \<times> request) list" where
  "six_requests = [(0, pin_request), (10, pin_request), (20, pin_request), (30, pin_request),
                   (40, pin_request), (60000, pin_request)]"

text \<open>
  The states of a writer that its constructor, \<open>enqueue\<close>, the interval timer, the
  settling of an awaited job and \<open>dispose\<close> can produce.
\<close>

inductive reachable :: "'j writer \<Rightarrow> bool" where
  constructed: "reachable (newAsyncDbWriter maxSize)"
| enqueued: "reachable w \<Longrightarrow> reachable (snd (enqueue job w))"
| timer_tick: "reachable w \<Longrightarrow> reachable (processQueue w)"
| settled: "reachable w \<Longrightarrow> reachable (job_settled w)"
| disposed: "reachable w \<Longrightarrow> reachable (dispose w)"

text \<open>
  A writer after two calls of \<open>enqueue\<close> in a row: job 1 has been called and is awaited,
  job 2 is queued. And a writer whose queue holds 1000 jobs.
\<close>

definition busy_writer :: "nat writer" where
  "busy_writer = snd (enqueue 2 (snd (enqueue 1 (newAsyncDbWriter 1000))))"

definition full_writer :: "nat writer" where
  "full_writer = (newAsyncDbWriter 1000)\<lparr>queue := replicate 1000 0, running := True\<rparr>"

section \<open>Properties\<close>

subsection \<open>Insertion-ordered maps\<close>

lemma map_get_map_set: "map_get (map_set m k v) k' = (if k' = k then Some v else map_get m k')"
  by (induction m) (auto simp: map_get_def)

lemma map_get_map_delete: "map_get (map_delete m k) k' = (if k' = k then None else map_get m k')"
  by (induction m) (auto simp: map_get_def)

lemma length_map_delete_le: "length (map_delete m k) \<le> length m"
  by (induction m) auto

lemma length_map_delete_hd: "length (map_delete ((k, v) # m) k) \<le> length m"
  by (simp add: length_map_delete_le)

lemma length_map_set_le: "length (map_set m k v) \<le> Suc (length m)"
  by (induction m) auto

lemma length_map_set_present: "map_get m k = Some e \<Longrightarrow> length (map_set m k v) = length m"
  by (induction m) (auto simp: map_get_def)

lemma map_set_absent: "map_get m k = None \<Longrightarrow> map_set m k v = m @ [(k, v)]"
  by (induction m) (auto simp: map_get_def)

lemma map_delete_absent: "map_get m k = None \<Longrightarrow> map_delete m k = m"
  by (induction m) (auto simp: map_get_def)

lemma distinct_map_delete_hd:
  "distinct (map fst ((k, v) # m)) \<Longrightarrow> map_delete ((k, v) # m) k = m"
  by (simp add: map_delete_absent map_get_def map_of_eq_None_iff)

subsection \<open>The master-key cache\<close>

lemma setMasterKeyInCache_length:
  "length c \<le> 100 \<Longrightarrow> length (setMasterKeyInCache now u k c) \<le> 100"
proof (cases "length c \<ge> 100")
  case True
  assume le: "length c \<le> 100"
  from True obtain ok e rest where c: "c = (ok, e) # rest" by (cases c) auto
  have "length (map_delete c ok) \<le> length rest" unfolding c by (rule length_map_delete_hd)
  also have "\<dots> = 99" using le True c by simp
  finally have "length (map_delete c ok) \<le> 99" .
  moreover have "setMasterKeyInCache now u k c =
      map_set (map_delete c ok) u \<lparr>key = k, expires = now + mkCacheTTL\<rparr>"
    using True c by (simp add: setMasterKeyInCache_def)
  ultimately show ?thesis
    using length_map_set_le[of "map_delete c ok" u "\<lparr>key = k, expires = now + mkCacheTTL\<rparr>"] by simp
next
  case False
  then have "setMasterKeyInCache now u k c = map_set c u \<lparr>key = k, expires = now + mkCacheTTL\<rparr>"
    by (simp add: setMasterKeyInCache_def)
  then show ?thesis
    using False length_map_set_le[of c u "\<lparr>key = k, expires = now + mkCacheTTL\<rparr>"] by simp
qed

lemma setMasterKeyInCache_full:
  assumes "length c \<ge> 100" "distinct (map fst c)" "map_get c u = None"
  shows "setMasterKeyInCache now u k c = tl c @ [(u, \<lparr>key = k, expires = now + mkCacheTTL\<rparr>)]"
proof -
  from assms(1) obtain ok e rest where c: "c = (ok, e) # rest" by (cases c) auto
  have d: "map_delete c ok = rest" using assms(2) unfolding c by (rule distinct_map_delete_hd)
  have "ok \<noteq> u" using assms(3) c by (auto simp: map_get_def)
  then have "map_get rest u = None" using assms(3) c by (simp add: map_get_def)
  then show ?thesis using assms(1) c d by (simp add: setMasterKeyInCache_def map_set_absent)
qed

lemma setMasterKeyInCache_get: "map_get (setMasterKeyInCache now u k c) u = Some \<lparr>key = k, expires = now + mkCacheTTL\<rparr>"
  by (simp add: setMasterKeyInCache_def Let_def map_get_map_set)

lemma getMasterKeyFromCache_hit:
  "map_get c u = Some e \<Longrightarrow> expires e > now \<Longrightarrow>
   getMasterKeyFromCache now u c = (Some (key e), map_set c u (e\<lparr>expires := now + mkCacheTTL\<rparr>))"
  by (simp add: getMasterKeyFromCache_def)

lemma getMasterKeyFromCache_miss:
  "map_get c u = None \<or> (\<exists>e. map_get c u = Some e \<and> expires e \<le> now) \<Longrightarrow>
   getMasterKeyFromCache now u c = (None, map_delete c u)"
  by (auto simp: getMasterKeyFromCache_def)

lemma getMasterKeyFromCache_length:
  "length (snd (getMasterKeyFromCache now u c)) \<le> length c"
  by (auto simp: getMasterKeyFromCache_def length_map_delete_le length_map_set_present split: option.splits)

lemma getDecryptedDek_miss:
  "map_get (mkCache w) u = None \<or> (\<exists>e. map_get (mkCache w) u = Some e \<and> expires e \<le> now) \<Longrightarrow>
   getDecryptedDek sod now u w = (None, w\<lparr>mkCache := map_delete (mkCache w) u\<rparr>)"
  by (simp add: getDecryptedDek_def getMasterKeyFromCache_miss)


lemma getDecryptedDek_length:
  "length (mkCache (snd (getDecryptedDek sod now u w))) \<le> length (mkCache w)"
proof -
  have "mkCache (snd (getDecryptedDek sod now u w)) = snd (getMasterKeyFromCache now u (mkCache w))"
    by (auto simp: getDecryptedDek_def unwrapKey_def split: prod.splits option.splits sum.splits)
  then show ?thesis by (simp add: getMasterKeyFromCache_length)
qed

lemma unlockWithPin_cache:
  "mkCache (snd (unlockWithPin sod now u pin w)) = mkCache w \<or>
   (\<exists>k. mkCache (snd (unlockWithPin sod now u pin w)) = setMasterKeyInCache now u k (mkCache w))"
  by (auto simp: unlockWithPin_def Let_def unwrapKey_def generateKey_def
      split: option.splits sum.splits prod.splits)

lemma unlockWithPin_length:
  "length (mkCache w) \<le> 100 \<Longrightarrow> length (mkCache (snd (unlockWithPin sod now u pin w))) \<le> 100"
  using unlockWithPin_cache[of sod now u pin w] by (auto simp: setMasterKeyInCache_length)

text \<open>
  C5. The master-key cache holds at most 100 entries: \<open>setMasterKeyInCache\<close> and
  \<open>getMasterKeyFromCache\<close>, and so \<open>unlockWithPin\<close> and \<open>getDecryptedDek\<close>, keep the bound.
  An insert of a new user into a cache of 100 drops the oldest-inserted entry (the head
  of the insertion order) and appends the new one. A read of a live entry returns its
  key and sets its expiry to \<open>now\<close> plus 30 minutes. A read of an entry whose expiry has
  passed removes it and returns nothing. Hence more than 30 minutes after the last
  refresh \<open>getDecryptedDek\<close> returns nothing, and keeps returning nothing afterwards, as
  long as nothing puts the user back into the cache.
\<close>

theorem mk_cache_policy:
  "(length c \<le> 100 \<longrightarrow>
      length (setMasterKeyInCache now u k c) \<le> 100 \<and>
      length (snd (getMasterKeyFromCache now u c)) \<le> 100) \<and>
   (length (mkCache w) \<le> 100 \<longrightarrow>
      length (mkCache (snd (unlockWithPin sod now u pin w))) \<le> 100 \<and>
      length (mkCache (snd (getDecryptedDek sod now u w))) \<le> 100) \<and>
   (length c \<ge> 100 \<and> distinct (map fst c) \<and> map_get c u = None \<longrightarrow>
      setMasterKeyInCache now u k c = tl c @ [(u, \<lparr>key = k, expires = now + 30 * 60 * 1000\<rparr>)]) \<and>
   (map_get c u = Some e \<and> now < expires e \<longrightarrow>
      fst (getMasterKeyFromCache now u c) = Some (key e) \<and>
      map_get (snd (getMasterKeyFromCache now u c)) u = Some (e\<lparr>expires := now + 30 * 60 * 1000\<rparr>)) \<and>
   (map_get c u = Some e \<and> expires e \<le> now \<longrightarrow>
      fst (getMasterKeyFromCache now u c) = None \<and>
      map_get (snd (getMasterKeyFromCache now u c)) u = None) \<and>
   (map_get (mkCache w) u = Some e \<and> expires e = t + 30 * 60 * 1000 \<and> now - t > 30 * 60 * 1000 \<longrightarrow>
      fst (getDecryptedDek sod now u w) = None \<and>
      fst (getDecryptedDek sod later u (snd (getDecryptedDek sod now u w))) = None)"
proof (intro conjI impI)
  assume "length c \<le> 100"
  then show "length (setMasterKeyInCache now u k c) \<le> 100"
    by (rule setMasterKeyInCache_length)
next
  assume "length c \<le> 100"
  then show "length (snd (getMasterKeyFromCache now u c)) \<le> 100"
    using getMasterKeyFromCache_length[of now u c] by simp
next
  assume "length (mkCache w) \<le> 100"
  then show "length (mkCache (snd (unlockWithPin sod now u pin w))) \<le> 100"
    by (rule unlockWithPin_length)
next
  assume "length (mkCache w) \<le> 100"
  then show "length (mkCache (snd (getDecryptedDek sod now u w))) \<le> 100"
    using getDecryptedDek_length[of sod now u w] by simp
next
  assume "length c \<ge> 100 \<and> distinct (map fst c) \<and> map_get c u = None"
  then show "setMasterKeyInCache now u k c = tl c @ [(u, \<lparr>key = k, expires = now + 30 * 60 * 1000\<rparr>)]"
    using setMasterKeyInCache_full[of c u now k] by (simp add: mkCacheTTL_def)
next
  assume h: "map_get c u = Some e \<and> now < expires e"
  then show "fst (getMasterKeyFromCache now u c) = Some (key e)"
    by (simp add: getMasterKeyFromCache_hit)
  from h show "map_get (snd (getMasterKeyFromCache now u c)) u = Some (e\<lparr>expires := now + 30 * 60 * 1000\<rparr>)"
    by (simp add: getMasterKeyFromCache_hit map_get_map_set mkCacheTTL_def)
next
  assume h: "map_get c u = Some e \<and> expires e \<le> now"
  then have m: "getMasterKeyFromCache now u c = (None, map_delete c u)"
    by (intro getMasterKeyFromCache_miss) auto
  show "fst (getMasterKeyFromCache now u c) = None" by (simp add: m)
  show "map_get (snd (getMasterKeyFromCache now u c)) u = None"
    by (simp add: m map_get_map_delete)
next
  assume h: "map_get (mkCache w) u = Some e \<and> expires e = t + 30 * 60 * 1000 \<and> now - t > 30 * 60 * 1000"
  then have "\<exists>e. map_get (mkCache w) u = Some e \<and> expires e \<le> now" by auto
  then have m: "getDecryptedDek sod now u w = (None, w\<lparr>mkCache := map_delete (mkCache w) u\<rparr>)"
    by (intro getDecryptedDek_miss) simp
  show "fst (getDecryptedDek sod now u w) = None" by (simp add: m)
  have "map_get (mkCache (w\<lparr>mkCache := map_delete (mkCache w) u\<rparr>)) u = None"
    by (simp add: map_get_map_delete)
  then have "getDecryptedDek sod later u (w\<lparr>mkCache := map_delete (mkCache w) u\<rparr>) =
      (None, (w\<lparr>mkCache := map_delete (mkCache w) u\<rparr>)\<lparr>mkCache := map_delete (mkCache (w\<lparr>mkCache := map_delete (mkCache w) u\<rparr>)) u\<rparr>)"
    by (intro getDecryptedDek_miss) simp
  then show "fst (getDecryptedDek sod later u (snd (getDecryptedDek sod now u w))) = None"
    by (simp add: m)
qed

lemma full_cache_length: "length full_cache = 100"
  by (simp add: full_cache_def)

lemma full_cache_distinct: "distinct (map fst full_cache)"
proof -
  have "inj_on (\<lambda>i. replicate (Suc i) CHR ''x'') (set [0..<100])"
    by (rule inj_onI) (metis Suc_inject length_replicate)
  then show ?thesis
    by (simp add: full_cache_def distinct_map comp_def)
qed

lemma full_cache_no_u1: "map_get full_cache ''u1'' = None"
proof -
  have "''u1'' \<noteq> replicate (Suc i) CHR ''x''" for i by simp
  then show ?thesis
    by (auto simp: map_get_def full_cache_def map_of_eq_None_iff image_iff)
qed

theorem mk_cache_policy_witness:
  "length full_cache \<ge> 100 \<and> distinct (map fst full_cache) \<and> map_get full_cache ''u1'' = None \<and>
   setMasterKeyInCache 5 ''u1'' (Bytes [7]) full_cache
     = tl full_cache @ [(''u1'', \<lparr>key = Bytes [7], expires = 5 + 30 * 60 * 1000\<rparr>)] \<and>
   length warm_cache \<le> 100 \<and>
   length (setMasterKeyInCache 999 ''u1'' (Bytes [8]) warm_cache) \<le> 100 \<and>
   length (snd (getMasterKeyFromCache 999 ''u1'' warm_cache)) \<le> 100 \<and>
   map_get warm_cache ''u1'' = Some \<lparr>key = Bytes [7], expires = 1000\<rparr> \<and>
   fst (getMasterKeyFromCache 999 ''u1'' warm_cache) = Some (Bytes [7]) \<and>
   map_get (snd (getMasterKeyFromCache 999 ''u1'' warm_cache)) ''u1''
     = Some \<lparr>key = Bytes [7], expires = 999 + 30 * 60 * 1000\<rparr> \<and>
   fst (getMasterKeyFromCache 1000 ''u1'' warm_cache) = None \<and>
   map_get (snd (getMasterKeyFromCache 1000 ''u1'' warm_cache)) ''u1'' = None \<and>
   length (mkCache (world0\<lparr>mkCache := warm_cache\<rparr>)) \<le> 100 \<and>
   length (mkCache (snd (unlockWithPin toy_sodium 999 ''u1'' ''1234'' (world0\<lparr>mkCache := warm_cache\<rparr>)))) \<le> 100 \<and>
   length (mkCache (snd (getDecryptedDek toy_sodium 999 ''u1'' (world0\<lparr>mkCache := warm_cache\<rparr>)))) \<le> 100 \<and>
   fst (getDecryptedDek toy_sodium 1860001 ''u1''
         (world0\<lparr>mkCache := [(''u1'', \<lparr>key = Bytes [7], expires = 0 + 30 * 60 * 1000\<rparr>)]\<rparr>)) = None \<and>
   fst (getDecryptedDek toy_sodium 1860002 ''u1''
         (snd (getDecryptedDek toy_sodium 1860001 ''u1''
            (world0\<lparr>mkCache := [(''u1'', \<lparr>key = Bytes [7], expires = 0 + 30 * 60 * 1000\<rparr>)]\<rparr>)))) = None"
proof -
  let ?e = "\<lparr>key = Bytes [7], expires = 1000\<rparr>"
  let ?idle_e = "\<lparr>key = Bytes [7], expires = 0 + 30 * 60 * 1000\<rparr>"
  let ?w = "world0\<lparr>mkCache := warm_cache\<rparr>"
  let ?idle_w = "world0\<lparr>mkCache := [(''u1'', ?idle_e)]\<rparr>"
  have f1: "length full_cache \<ge> 100" by (simp add: full_cache_length)
  have f2: "distinct (map fst full_cache)" by (rule full_cache_distinct)
  have f3: "map_get full_cache ''u1'' = None" by (rule full_cache_no_u1)
  have evict: "setMasterKeyInCache 5 ''u1'' (Bytes [7]) full_cache
      = tl full_cache @ [(''u1'', \<lparr>key = Bytes [7], expires = 5 + 30 * 60 * 1000\<rparr>)]"
    using mk_cache_policy[where c = full_cache and now = 5 and u = "''u1''" and k = "Bytes [7]"]
      f1 f2 f3 by blast
  have g1: "length warm_cache \<le> 100" by (simp add: warm_cache_def)
  have g2: "length (mkCache ?w) \<le> 100" by (simp add: warm_cache_def)
  have g3: "map_get warm_cache ''u1'' = Some ?e" by (simp add: warm_cache_def map_get_def)
  have g4: "(999::int) < expires ?e" by simp
  have g5: "expires ?e \<le> (1000::int)" by simp
  note inst = mk_cache_policy[where c = warm_cache and now = 999 and u = "''u1''"
      and k = "Bytes [8]" and w = ?w and sod = toy_sodium and pin = "''1234''" and e = ?e]
  have bound1: "length (setMasterKeyInCache 999 ''u1'' (Bytes [8]) warm_cache) \<le> 100"
    and bound2: "length (snd (getMasterKeyFromCache 999 ''u1'' warm_cache)) \<le> 100"
    and bound3: "length (mkCache (snd (unlockWithPin toy_sodium 999 ''u1'' ''1234'' ?w))) \<le> 100"
    and bound4: "length (mkCache (snd (getDecryptedDek toy_sodium 999 ''u1'' ?w))) \<le> 100"
    using inst g1 g2 by blast+
  have hit1: "fst (getMasterKeyFromCache 999 ''u1'' warm_cache) = Some (key ?e)"
    and hit2: "map_get (snd (getMasterKeyFromCache 999 ''u1'' warm_cache)) ''u1''
       = Some (?e\<lparr>expires := 999 + 30 * 60 * 1000\<rparr>)"
    using inst g3 g4 by blast+
  have miss1: "fst (getMasterKeyFromCache 1000 ''u1'' warm_cache) = None"
    and miss2: "map_get (snd (getMasterKeyFromCache 1000 ''u1'' warm_cache)) ''u1'' = None"
    using mk_cache_policy[where c = warm_cache and now = 1000 and u = "''u1''" and e = ?e] g3 g5
    by blast+
  have i1: "map_get (mkCache ?idle_w) ''u1'' = Some ?idle_e" by (simp add: map_get_def)
  have i2: "expires ?idle_e = 0 + 30 * 60 * 1000" by simp
  have i3: "(1860001::int) - 0 > 30 * 60 * 1000" by simp
  have idle1: "fst (getDecryptedDek toy_sodium 1860001 ''u1'' ?idle_w) = None"
    and idle2: "fst (getDecryptedDek toy_sodium 1860002 ''u1''
         (snd (getDecryptedDek toy_sodium 1860001 ''u1'' ?idle_w))) = None"
    using mk_cache_policy[where w = ?idle_w and now = 1860001 and u = "''u1''" and t = 0
        and sod = toy_sodium and later = 1860002 and e = ?idle_e] i1 i2 i3
    by blast+
  from hit1 have hit1': "fst (getMasterKeyFromCache 999 ''u1'' warm_cache) = Some (Bytes [7])"
    by simp
  from hit2 have hit2': "map_get (snd (getMasterKeyFromCache 999 ''u1'' warm_cache)) ''u1''
       = Some \<lparr>key = Bytes [7], expires = 999 + 30 * 60 * 1000\<rparr>"
    by simp
  show ?thesis
    using f1 f2 f3 evict g1 bound1 bound2 g3 hit1' hit2' miss1 miss2 g2 bound3 bound4 idle1 idle2
    by blast
qed

subsection \<open>PIN unlock\<close>

lemma unlockWithPin_locked:
  "locked now (pinFailures w userId) \<Longrightarrow> unlockWithPin sod now userId pin w = (Inl AccountLocked, w)"
  by (simp add: unlockWithPin_def)

lemma unlockWithPin_provisioned:
  assumes "\<not> locked now (pinFailures w userId)"
    and "findById (keyStore w) (''mk_pin_'' @ userId) = Some item"
    and "meta item = Some m" and "salt m = Some s"
    and "crypto_pwhash sod pin (Bytes s) = Inr kek"
  shows "unlockWithPin sod now userId pin w =
     (Inr True,
      w\<lparr>mkCache := setMasterKeyInCache now userId
            (Promise (settle (aead_decrypt sod (blob item) (nonce item) (Bytes kek)))) (mkCache w),
        pinFailures := (pinFailures w)(userId := None)\<rparr>)"
  using assms
  by (simp add: unlockWithPin_def deriveKeyFromPin_def await_def unwrapKey_def aeadDecrypt_def
      settle_def)

lemma unlockWithPin_unprovisioned:
  assumes "\<not> locked now (pinFailures w userId)"
    and "findById (keyStore w) (''mk_pin_'' @ userId) = None"
  shows "unlockWithPin sod now userId pin w =
     ((case crypto_pwhash sod pin (Promise (Inr (randombytes_buf sod (entropy w) 16))) of
         Inl e \<Rightarrow> Inl (LibraryError e) | Inr dummy \<Rightarrow> Inr False),
      w\<lparr>entropy := Suc (entropy w)\<rparr>)"
  using assms
  by (simp add: unlockWithPin_def deriveKeyFromPin_def await_def generateKey_def settle_def
      split: sum.splits)

text \<open>
  C3. A user whose failure record has count at least 5 and whose last attempt is less than
  15 minutes old gets \<open>AccountLocked\<close> from \<open>unlockWithPin\<close>, whatever the PIN and
  whatever the key store holds, and the state is untouched. Once 15 minutes have passed
  since the last attempt, a call with the correct PIN (the derived key unwraps the stored
  master key) returns true and removes the failure record.
\<close>

theorem pin_lockout:
  "(pinFailures w userId = Some f \<and> count f \<ge> 5 \<and> now - lastAttempt f < 15 * 60 * 1000 \<longrightarrow>
      unlockWithPin sod now userId pin w = (Inl AccountLocked, w)) \<and>
   (pinFailures w userId = Some f \<and> count f \<ge> 5 \<and> now - lastAttempt f \<ge> 15 * 60 * 1000 \<and>
    findById (keyStore w) (''mk_pin_'' @ userId) = Some item \<and>
    meta item = Some m \<and> salt m = Some s \<and>
    crypto_pwhash sod pin (Bytes s) = Inr kek \<and>
    aead_decrypt sod (blob item) (nonce item) (Bytes kek) = Inr mk \<longrightarrow>
      fst (unlockWithPin sod now userId pin w) = Inr True \<and>
      pinFailures (snd (unlockWithPin sod now userId pin w)) userId = None)"
proof (intro conjI impI)
  assume "pinFailures w userId = Some f \<and> count f \<ge> 5 \<and> now - lastAttempt f < 15 * 60 * 1000"
  then have "locked now (pinFailures w userId)"
    by (simp add: locked_def maxPinAttempts_def pinLockoutDuration_def)
  then show "unlockWithPin sod now userId pin w = (Inl AccountLocked, w)"
    by (rule unlockWithPin_locked)
next
  assume h: "pinFailures w userId = Some f \<and> count f \<ge> 5 \<and> now - lastAttempt f \<ge> 15 * 60 * 1000 \<and>
    findById (keyStore w) (''mk_pin_'' @ userId) = Some item \<and>
    meta item = Some m \<and> salt m = Some s \<and>
    crypto_pwhash sod pin (Bytes s) = Inr kek \<and>
    aead_decrypt sod (blob item) (nonce item) (Bytes kek) = Inr mk"
  then have nl: "\<not> locked now (pinFailures w userId)"
    by (simp add: locked_def maxPinAttempts_def pinLockoutDuration_def)
  from h have eq: "unlockWithPin sod now userId pin w =
     (Inr True,
      w\<lparr>mkCache := setMasterKeyInCache now userId
            (Promise (settle (aead_decrypt sod (blob item) (nonce item) (Bytes kek)))) (mkCache w),
        pinFailures := (pinFailures w)(userId := None)\<rparr>)"
    by (intro unlockWithPin_provisioned[OF nl]) auto
  show "fst (unlockWithPin sod now userId pin w) = Inr True" by (simp add: eq)
  show "pinFailures (snd (unlockWithPin sod now userId pin w)) userId = None" by (simp add: eq)
qed

lemma world1_mk_pin:
  "findById (keyStore world1) ''mk_pin_u1'' =
     Some \<lparr>item_id = ''mk_pin_u1'', item_type = ''master_key_pin'',
           blob = take 32 (map (\<lambda>c. of_nat (of_char c)) ''1234'' @ replicate 16 3 @ replicate 32 0)
                  @ replicate 24 4 @ replicate 32 0,
           nonce = replicate 24 4,
           meta = Some \<lparr>salt = Some (replicate 16 3), version = None\<rparr>\<rparr>"
  by (simp add: world1_def world0_def setPin_def toy_sodium_def generateKey_def await_def
      wrapKey_def aeadEncrypt_def create_def deriveKeyFromPin_def settle_def findById_def)

lemma world1_failures: "pinFailures world1 = Map.empty"
  by (simp add: world1_def world0_def setPin_def toy_sodium_def generateKey_def await_def
      wrapKey_def aeadEncrypt_def create_def deriveKeyFromPin_def settle_def)

lemma world1_cache: "mkCache world1 = []"
  by (simp add: world1_def world0_def setPin_def toy_sodium_def generateKey_def await_def
      wrapKey_def aeadEncrypt_def create_def deriveKeyFromPin_def settle_def)

lemma world1_no_u2: "findById (keyStore world1) ''mk_pin_u2'' = None"
  by (simp add: world1_def world0_def setPin_def toy_sodium_def generateKey_def await_def
      wrapKey_def aeadEncrypt_def create_def deriveKeyFromPin_def settle_def findById_def)

lemma world1_dek:
  "findById (keyStore world1) ''dek_u1'' =
     Some \<lparr>item_id = ''dek_u1'', item_type = ''data_encryption_key'',
           blob = replicate 32 0 @ replicate 24 2 @ replicate 32 1,
           nonce = replicate 24 2,
           meta = Some \<lparr>salt = None, version = Some 1\<rparr>\<rparr>"
  by (simp add: world1_def world0_def setPin_def toy_sodium_def generateKey_def await_def
      wrapKey_def aeadEncrypt_def create_def deriveKeyFromPin_def settle_def findById_def)

lemma toy_pwhash: "crypto_pwhash toy_sodium pin (Bytes (replicate 16 3)) = Inr (kek_of pin)"
  by (simp add: toy_sodium_def kek_of_def)

lemma toy_unwrap_right:
  "aead_decrypt toy_sodium (blob mk_pin_u1) (nonce mk_pin_u1) (Bytes (kek_of ''1234'')) = Inr (replicate 32 0)"
  by (simp add: toy_sodium_def kek_of_def mk_pin_u1_def)

lemma toy_unwrap_wrong:
  "aead_decrypt toy_sodium (blob mk_pin_u1) (nonce mk_pin_u1) (Bytes (kek_of ''0000'')) = Inl DecryptFailed"
  by (simp add: toy_sodium_def kek_of_def mk_pin_u1_def)

theorem pin_lockout_witness:
  "pinFailures locked_world ''u1'' = Some \<lparr>count = 5, lastAttempt = 1000\<rparr> \<and>
   unlockWithPin toy_sodium 2000 ''u1'' ''1234'' locked_world = (Inl AccountLocked, locked_world) \<and>
   unlockWithPin toy_sodium 900999 ''u1'' ''1234'' locked_world = (Inl AccountLocked, locked_world) \<and>
   fst (unlockWithPin toy_sodium 901000 ''u1'' ''1234'' locked_world) = Inr True \<and>
   pinFailures (snd (unlockWithPin toy_sodium 901000 ''u1'' ''1234'' locked_world)) ''u1'' = None"
proof -
  let ?f = "\<lparr>count = 5, lastAttempt = 1000\<rparr>"
  have a: "pinFailures locked_world ''u1'' = Some ?f" by (simp add: locked_world_def)
  have b: "count ?f \<ge> 5" by simp
  have c1: "2000 - lastAttempt ?f < 15 * 60 * 1000" by simp
  have c2: "900999 - lastAttempt ?f < 15 * 60 * 1000" by simp
  have c3: "901000 - lastAttempt ?f \<ge> 15 * 60 * 1000" by simp
  have d: "findById (keyStore locked_world) (''mk_pin_'' @ ''u1'') = Some mk_pin_u1"
    using world1_mk_pin by (simp add: locked_world_def mk_pin_u1_def)
  have e: "meta mk_pin_u1 = Some \<lparr>salt = Some (replicate 16 3), version = None\<rparr>"
    by (simp add: mk_pin_u1_def)
  have g: "salt \<lparr>salt = Some (replicate 16 3), version = None\<rparr> = Some (replicate 16 3)" by simp
  have r1: "unlockWithPin toy_sodium 2000 ''u1'' ''1234'' locked_world = (Inl AccountLocked, locked_world)"
    using pin_lockout[where w = locked_world and userId = "''u1''" and f = ?f and now = 2000] a b c1
    by blast
  have r2: "unlockWithPin toy_sodium 900999 ''u1'' ''1234'' locked_world = (Inl AccountLocked, locked_world)"
    using pin_lockout[where w = locked_world and userId = "''u1''" and f = ?f and now = 900999] a b c2
    by blast
  have r3: "fst (unlockWithPin toy_sodium 901000 ''u1'' ''1234'' locked_world) = Inr True \<and>
      pinFailures (snd (unlockWithPin toy_sodium 901000 ''u1'' ''1234'' locked_world)) ''u1'' = None"
    using pin_lockout[where w = locked_world and userId = "''u1''" and f = ?f and now = 901000
        and item = mk_pin_u1 and sod = toy_sodium and pin = "''1234''"
        and m = "\<lparr>salt = Some (replicate 16 3), version = None\<rparr>" and s = "replicate 16 3"
        and kek = "kek_of ''1234''" and mk = "replicate 32 0"]
      a b c3 d e g toy_pwhash[of "''1234''"] toy_unwrap_right
    by blast
  show ?thesis using a r1 r2 r3 by blast
qed

subsection \<open>Users without a PIN record\<close>

lemma unlockWithPin_absent_frame:
  assumes "findById (keyStore w) (''mk_pin_'' @ u) = None"
  shows "pinFailures (snd (unlockWithPin sod now u pin w)) = pinFailures w \<and>
         keyStore (snd (unlockWithPin sod now u pin w)) = keyStore w \<and>
         mkCache (snd (unlockWithPin sod now u pin w)) = mkCache w"
proof (cases "locked now (pinFailures w u)")
  case True
  then show ?thesis by (simp add: unlockWithPin_locked)
next
  case False
  then show ?thesis using assms by (simp add: unlockWithPin_unprovisioned)
qed

lemma unlockWithPin_absent_not_locked:
  assumes "findById (keyStore w) (''mk_pin_'' @ u) = None" and "pinFailures w u = None"
  shows "fst (unlockWithPin sod now u pin w) \<noteq> Inl AccountLocked"
proof -
  have nl: "\<not> locked now (pinFailures w u)" using assms(2) by (simp add: locked_def)
  show ?thesis
    by (simp add: unlockWithPin_unprovisioned[OF nl assms(1)] split: sum.splits)
qed

lemma unlock_attempts_absent:
  assumes "findById (keyStore w) (''mk_pin_'' @ u) = None" and "pinFailures w u = None"
  shows "Inl AccountLocked \<notin> set (fst (unlock_attempts sod u attempts w)) \<and>
         pinFailures (snd (unlock_attempts sod u attempts w)) = pinFailures w"
  using assms
proof (induction attempts arbitrary: w)
  case Nil
  then show ?case by simp
next
  case (Cons a attempts)
  obtain now pin where a: "a = (now, pin)" by (cases a)
  let ?w' = "snd (unlockWithPin sod now u pin w)"
  have frame: "pinFailures ?w' = pinFailures w \<and> keyStore ?w' = keyStore w \<and> mkCache ?w' = mkCache w"
    using Cons.prems(1) by (rule unlockWithPin_absent_frame)
  have r: "fst (unlockWithPin sod now u pin w) \<noteq> Inl AccountLocked"
    using Cons.prems by (rule unlockWithPin_absent_not_locked)
  have ih: "Inl AccountLocked \<notin> set (fst (unlock_attempts sod u attempts ?w')) \<and>
         pinFailures (snd (unlock_attempts sod u attempts ?w')) = pinFailures ?w'"
    using Cons.IH[of ?w'] Cons.prems frame by simp
  show ?case
    using r ih frame by (simp add: a split_beta)
qed

text \<open>
  C9. For a user with no \<open>mk_pin_\<close> record, \<open>unlockWithPin\<close> leaves the failure map as it
  is. So a user who has no failure record and no PIN record is never answered with
  \<open>AccountLocked\<close>, however many attempts are made for that user, and still has no
  failure record afterwards.
\<close>

theorem unprovisioned_user_frame:
  "findById (keyStore w) (''mk_pin_'' @ u) = None \<longrightarrow>
     pinFailures (snd (unlockWithPin sod now u pin w)) = pinFailures w \<and>
     (pinFailures w u = None \<longrightarrow>
        Inl AccountLocked \<notin> set (fst (unlock_attempts sod u attempts w)) \<and>
        pinFailures (snd (unlock_attempts sod u attempts w)) u = None)"
proof (intro impI conjI)
  assume h: "findById (keyStore w) (''mk_pin_'' @ u) = None"
  from h show "pinFailures (snd (unlockWithPin sod now u pin w)) = pinFailures w"
    using unlockWithPin_absent_frame by blast
  assume n: "pinFailures w u = None"
  from h n show "Inl AccountLocked \<notin> set (fst (unlock_attempts sod u attempts w))"
    using unlock_attempts_absent by blast
  from h n show "pinFailures (snd (unlock_attempts sod u attempts w)) u = None"
    using unlock_attempts_absent[of w u sod attempts] by simp
qed

theorem unprovisioned_user_frame_witness:
  "findById (keyStore world1) (''mk_pin_'' @ ''u2'') = None \<and>
   pinFailures world1 ''u2'' = None \<and>
   pinFailures (snd (unlockWithPin toy_sodium 1000 ''u2'' ''0000'' world1)) = pinFailures world1 \<and>
   Inl AccountLocked \<notin> set (fst (unlock_attempts toy_sodium ''u2'' six_attempts world1)) \<and>
   pinFailures (snd (unlock_attempts toy_sodium ''u2'' six_attempts world1)) ''u2'' = None"
proof -
  have a: "findById (keyStore world1) (''mk_pin_'' @ ''u2'') = None"
    using world1_no_u2 by simp
  have b: "pinFailures world1 ''u2'' = None" by (simp add: world1_failures)
  show ?thesis
    using unprovisioned_user_frame[where w = world1 and u = "''u2''" and sod = toy_sodium
        and now = 1000 and pin = "''0000''" and attempts = six_attempts] a b
    by blast
qed

subsection \<open>The promise that is not awaited\<close>

text \<open>
  C1. The claim is that a failed unwrap (wrong PIN) increments the failure count, records
  the time and returns false. The source calls \<open>unwrapKey\<close> without \<open>await\<close>, so the
  \<open>try\<close> block never sees the failure: for a user with a PIN record who is not locked
  out, a PIN whose derived key fails to decrypt the stored master key makes
  \<open>unlockWithPin\<close> return true, remove the failure record and cache the rejected promise
  as the master key.
\<close>

theorem wrong_pin_accepted:
  "\<not> locked now (pinFailures w u) \<and>
   findById (keyStore w) (''mk_pin_'' @ u) = Some item \<and>
   meta item = Some m \<and> salt m = Some s \<and>
   crypto_pwhash sod pin (Bytes s) = Inr kek \<and>
   aead_decrypt sod (blob item) (nonce item) (Bytes kek) = Inl DecryptFailed \<longrightarrow>
     fst (unlockWithPin sod now u pin w) = Inr True \<and>
     pinFailures (snd (unlockWithPin sod now u pin w)) u = None \<and>
     map_get (mkCache (snd (unlockWithPin sod now u pin w))) u =
       Some \<lparr>key = Promise (Inl (LibraryError DecryptFailed)), expires = now + 30 * 60 * 1000\<rparr>"
proof (intro impI)
  assume h: "\<not> locked now (pinFailures w u) \<and>
   findById (keyStore w) (''mk_pin_'' @ u) = Some item \<and>
   meta item = Some m \<and> salt m = Some s \<and>
   crypto_pwhash sod pin (Bytes s) = Inr kek \<and>
   aead_decrypt sod (blob item) (nonce item) (Bytes kek) = Inl DecryptFailed"
  then have eq: "unlockWithPin sod now u pin w =
     (Inr True,
      w\<lparr>mkCache := setMasterKeyInCache now u
            (Promise (settle (aead_decrypt sod (blob item) (nonce item) (Bytes kek)))) (mkCache w),
        pinFailures := (pinFailures w)(u := None)\<rparr>)"
    by (intro unlockWithPin_provisioned) auto
  from h have d: "settle (aead_decrypt sod (blob item) (nonce item) (Bytes kek)) = Inl (LibraryError DecryptFailed)"
    by (simp add: settle_def)
  show "fst (unlockWithPin sod now u pin w) = Inr True \<and>
     pinFailures (snd (unlockWithPin sod now u pin w)) u = None \<and>
     map_get (mkCache (snd (unlockWithPin sod now u pin w))) u =
       Some \<lparr>key = Promise (Inl (LibraryError DecryptFailed)), expires = now + 30 * 60 * 1000\<rparr>"
    by (simp add: eq d setMasterKeyInCache_get mkCacheTTL_def)
qed

theorem wrong_pin_accepted_witness:
  "\<not> locked 1000 (pinFailures world1 ''u1'') \<and>
   findById (keyStore world1) (''mk_pin_'' @ ''u1'') = Some mk_pin_u1 \<and>
   crypto_pwhash toy_sodium ''0000'' (Bytes (replicate 16 3)) = Inr (kek_of ''0000'') \<and>
   aead_decrypt toy_sodium (blob mk_pin_u1) (nonce mk_pin_u1) (Bytes (kek_of ''0000'')) = Inl DecryptFailed \<and>
   fst (unlockWithPin toy_sodium 1000 ''u1'' ''0000'' world1) = Inr True \<and>
   pinFailures (snd (unlockWithPin toy_sodium 1000 ''u1'' ''0000'' world1)) ''u1'' = None \<and>
   map_get (mkCache (snd (unlockWithPin toy_sodium 1000 ''u1'' ''0000'' world1))) ''u1'' =
       Some \<lparr>key = Promise (Inl (LibraryError DecryptFailed)), expires = 1000 + 30 * 60 * 1000\<rparr>"
proof -
  have a: "\<not> locked 1000 (pinFailures world1 ''u1'')" by (simp add: world1_failures locked_def)
  have b: "findById (keyStore world1) (''mk_pin_'' @ ''u1'') = Some mk_pin_u1"
    using world1_mk_pin by (simp add: mk_pin_u1_def)
  have c: "meta mk_pin_u1 = Some \<lparr>salt = Some (replicate 16 3), version = None\<rparr>"
    by (simp add: mk_pin_u1_def)
  have d: "salt \<lparr>salt = Some (replicate 16 3), version = None\<rparr> = Some (replicate 16 3)" by simp
  show ?thesis
    using wrong_pin_accepted[where w = world1 and u = "''u1''" and now = 1000 and item = mk_pin_u1
        and m = "\<lparr>salt = Some (replicate 16 3), version = None\<rparr>" and s = "replicate 16 3"
        and sod = toy_sodium and pin = "''0000''" and kek = "kek_of ''0000''"]
      a b c d toy_pwhash[of "''0000''"] toy_unwrap_wrong
    by blast
qed

text \<open>What \<open>getDecryptedDek\<close> hands back is \<open>null\<close> or the promise of \<open>unwrapKey\<close>.\<close>

lemma getDecryptedDek_result:
  "fst (getDecryptedDek sod now u w) = None \<or> (\<exists>r. fst (getDecryptedDek sod now u w) = Some (Promise r))"
  by (auto simp: getDecryptedDek_def unwrapKey_def aeadDecrypt_def split: prod.splits option.splits)

lemma world1_setPin: "fst (setPin toy_sodium ''u1'' ''1234'' world0) = Inr ()"
  by (simp add: world0_def setPin_def toy_sodium_def generateKey_def await_def
      wrapKey_def aeadEncrypt_def create_def deriveKeyFromPin_def settle_def)

lemma world1_unlock:
  "unlockWithPin toy_sodium 2000 ''u1'' ''1234'' world1 =
     (Inr True, world1\<lparr>mkCache := [(''u1'', \<lparr>key = Promise (Inr (replicate 32 0)), expires = 2000 + mkCacheTTL\<rparr>)],
                       pinFailures := Map.empty\<rparr>)"
proof -
  have a: "\<not> locked 2000 (pinFailures world1 ''u1'')" by (simp add: world1_failures locked_def)
  have b: "findById (keyStore world1) (''mk_pin_'' @ ''u1'') = Some mk_pin_u1"
    using world1_mk_pin by (simp add: mk_pin_u1_def)
  have c: "meta mk_pin_u1 = Some \<lparr>salt = Some (replicate 16 3), version = None\<rparr>"
    by (simp add: mk_pin_u1_def)
  have d: "salt \<lparr>salt = Some (replicate 16 3), version = None\<rparr> = Some (replicate 16 3)" by simp
  show ?thesis
    unfolding unlockWithPin_provisioned[OF a b c d toy_pwhash[of "''1234''"]]
    by (simp add: toy_unwrap_right settle_def world1_cache world1_failures setMasterKeyInCache_def)
qed

lemma toy_decrypt_promise: "aead_decrypt toy_sodium c n (Promise p) = Inl BadInput"
  by (simp add: toy_sodium_def)

text \<open>
  C2. The claim is that after \<open>setPin\<close> and a successful \<open>unlockWithPin\<close>,
  \<open>getDecryptedDek\<close> returns the 32 bytes of the DEK. In the source \<open>getDecryptedDek\<close>
  returns the promise of \<open>unwrapKey\<close> without awaiting it, so its result is never a byte
  array. In the scenario of the claim (set the PIN, find nothing cached, unlock with the
  PIN), the key handed to the decryption is itself the promise that \<open>unlockWithPin\<close>
  cached, and the result is a promise rejected by the library.
\<close>

theorem getDecryptedDek_returns_promise:
  "fst (getDecryptedDek sod now u w) \<noteq> Some (Bytes dek) \<and>
   fst (setPin toy_sodium ''u1'' ''1234'' world0) = Inr () \<and>
   fst (getDecryptedDek toy_sodium 1000 ''u1'' world1) = None \<and>
   fst (unlockWithPin toy_sodium 2000 ''u1'' ''1234'' world1) = Inr True \<and>
   fst (getDecryptedDek toy_sodium 3000 ''u1''
         (snd (unlockWithPin toy_sodium 2000 ''u1'' ''1234'' world1)))
     = Some (Promise (Inl (LibraryError BadInput)))"
proof (intro conjI)
  show "fst (getDecryptedDek sod now u w) \<noteq> Some (Bytes dek)"
    using getDecryptedDek_result[of sod now u w] by auto
  show "fst (setPin toy_sodium ''u1'' ''1234'' world0) = Inr ()" by (rule world1_setPin)
  show "fst (getDecryptedDek toy_sodium 1000 ''u1'' world1) = None"
    by (simp add: getDecryptedDek_def getMasterKeyFromCache_def world1_cache map_get_def)
  show "fst (unlockWithPin toy_sodium 2000 ''u1'' ''1234'' world1) = Inr True"
    by (simp add: world1_unlock)
  have dek: "findById (keyStore world1) ''dek_u1'' \<noteq> None" by (simp add: world1_dek)
  show "fst (getDecryptedDek toy_sodium 3000 ''u1''
         (snd (unlockWithPin toy_sodium 2000 ''u1'' ''1234'' world1)))
     = Some (Promise (Inl (LibraryError BadInput)))"
    unfolding world1_unlock using dek
    by (auto simp: getDecryptedDek_def getMasterKeyFromCache_def map_get_def
        mkCacheTTL_def unwrapKey_def aeadDecrypt_def settle_def toy_decrypt_promise)
qed

text \<open>
  C4. The claim is that a user without a PIN record and a user with one who submits a
  wrong PIN get the same answer, false. In the source the first gets false or the error
  of a key derivation whose salt is a promise (\<open>generateKey\<close> is not awaited), never
  true, and the second gets true: the two runs differ.
\<close>

theorem absent_user_distinguishable:
  "\<not> locked now (pinFailures w absent) \<and>
   findById (keyStore w) (''mk_pin_'' @ absent) = None \<and>
   \<not> locked now (pinFailures w present) \<and>
   findById (keyStore w) (''mk_pin_'' @ present) = Some item \<and>
   meta item = Some m \<and> salt m = Some s \<and>
   crypto_pwhash sod pin (Bytes s) = Inr kek \<and>
   aead_decrypt sod (blob item) (nonce item) (Bytes kek) = Inl DecryptFailed \<longrightarrow>
     fst (unlockWithPin sod now absent pin w) =
       (case crypto_pwhash sod pin (Promise (Inr (randombytes_buf sod (entropy w) 16))) of
          Inl e \<Rightarrow> Inl (LibraryError e) | Inr dummy \<Rightarrow> Inr False) \<and>
     fst (unlockWithPin sod now present pin w) = Inr True \<and>
     fst (unlockWithPin sod now absent pin w) \<noteq> fst (unlockWithPin sod now present pin w)"
proof (intro impI)
  assume h: "\<not> locked now (pinFailures w absent) \<and>
   findById (keyStore w) (''mk_pin_'' @ absent) = None \<and>
   \<not> locked now (pinFailures w present) \<and>
   findById (keyStore w) (''mk_pin_'' @ present) = Some item \<and>
   meta item = Some m \<and> salt m = Some s \<and>
   crypto_pwhash sod pin (Bytes s) = Inr kek \<and>
   aead_decrypt sod (blob item) (nonce item) (Bytes kek) = Inl DecryptFailed"
  from h have p: "fst (unlockWithPin sod now present pin w) = Inr True"
    by (subst unlockWithPin_provisioned[where item = item and m = m and s = s and kek = kek]) auto
  from h have a: "fst (unlockWithPin sod now absent pin w) =
       (case crypto_pwhash sod pin (Promise (Inr (randombytes_buf sod (entropy w) 16))) of
          Inl e \<Rightarrow> Inl (LibraryError e) | Inr dummy \<Rightarrow> Inr False)"
    by (subst unlockWithPin_unprovisioned) auto
  have "fst (unlockWithPin sod now absent pin w) \<noteq> Inr True"
    by (simp add: a split: sum.splits)
  with p a show "fst (unlockWithPin sod now absent pin w) =
       (case crypto_pwhash sod pin (Promise (Inr (randombytes_buf sod (entropy w) 16))) of
          Inl e \<Rightarrow> Inl (LibraryError e) | Inr dummy \<Rightarrow> Inr False) \<and>
     fst (unlockWithPin sod now present pin w) = Inr True \<and>
     fst (unlockWithPin sod now absent pin w) \<noteq> fst (unlockWithPin sod now present pin w)"
    by simp
qed

theorem absent_user_distinguishable_witness:
  "\<not> locked 1000 (pinFailures world1 ''u2'') \<and>
   findById (keyStore world1) (''mk_pin_'' @ ''u2'') = None \<and>
   \<not> locked 1000 (pinFailures world1 ''u1'') \<and>
   findById (keyStore world1) (''mk_pin_'' @ ''u1'') = Some mk_pin_u1 \<and>
   aead_decrypt toy_sodium (blob mk_pin_u1) (nonce mk_pin_u1) (Bytes (kek_of ''0000'')) = Inl DecryptFailed \<and>
   fst (unlockWithPin toy_sodium 1000 ''u2'' ''0000'' world1) = Inl (LibraryError BadInput) \<and>
   fst (unlockWithPin toy_sodium 1000 ''u1'' ''0000'' world1) = Inr True"
proof -
  have a: "\<not> locked 1000 (pinFailures world1 ''u1'')" by (simp add: world1_failures locked_def)
  have a2: "\<not> locked 1000 (pinFailures world1 ''u2'')" by (simp add: world1_failures locked_def)
  have n: "findById (keyStore world1) (''mk_pin_'' @ ''u2'') = None" using world1_no_u2 by simp
  have b: "findById (keyStore world1) (''mk_pin_'' @ ''u1'') = Some mk_pin_u1"
    using world1_mk_pin by (simp add: mk_pin_u1_def)
  have c: "meta mk_pin_u1 = Some \<lparr>salt = Some (replicate 16 3), version = None\<rparr>"
    by (simp add: mk_pin_u1_def)
  have d: "salt \<lparr>salt = Some (replicate 16 3), version = None\<rparr> = Some (replicate 16 3)" by simp
  have dummy: "(case crypto_pwhash toy_sodium ''0000'' (Promise (Inr (randombytes_buf toy_sodium (entropy world1) 16))) of
          Inl e \<Rightarrow> Inl (LibraryError e) | Inr dummy \<Rightarrow> Inr False) = (Inl (LibraryError BadInput) :: error + bool)"
    by (simp add: toy_sodium_def)
  have "fst (unlockWithPin toy_sodium 1000 ''u2'' ''0000'' world1) =
       (case crypto_pwhash toy_sodium ''0000'' (Promise (Inr (randombytes_buf toy_sodium (entropy world1) 16))) of
          Inl e \<Rightarrow> Inl (LibraryError e) | Inr dummy \<Rightarrow> Inr False) \<and>
     fst (unlockWithPin toy_sodium 1000 ''u1'' ''0000'' world1) = Inr True"
    using absent_user_distinguishable[where w = world1 and absent = "''u2''" and present = "''u1''"
        and now = 1000 and item = mk_pin_u1
        and m = "\<lparr>salt = Some (replicate 16 3), version = None\<rparr>" and s = "replicate 16 3"
        and sod = toy_sodium and pin = "''0000''" and kek = "kek_of ''0000''"]
      a a2 n b c d toy_pwhash[of "''0000''"] toy_unwrap_wrong
    by blast
  then show ?thesis using a a2 n b toy_unwrap_wrong dummy by simp
qed

subsection \<open>Session gate\<close>

text \<open>
  C7. With the clock past its first five minutes (\<open>Date.now()\<close> counts from 1970),
  \<open>requireFreshWebAuthn\<close> throws \<open>Forbidden\<close>, leaving the state alone, when the session
  of the request has no \<open>lastUVAt\<close> or one that is more than 5 minutes old; when
  \<open>lastUVAt\<close> is set and at most 5 minutes old the result is that of the wrapped handler,
  so the gate rejects in exactly the first case.
\<close>

theorem fresh_webauthn_gate:
  "5 * 60 * 1000 < now \<longrightarrow>
     (lastUVAt (getSession (sessions st) req) = None \<or>
      (\<exists>t. lastUVAt (getSession (sessions st) req) = Some t \<and> now - t > 5 * 60 * 1000) \<longrightarrow>
        requireFreshWebAuthn now handler req st = (Inl Forbidden, st)) \<and>
     ((\<exists>t. lastUVAt (getSession (sessions st) req) = Some t \<and> now - t \<le> 5 * 60 * 1000) \<longrightarrow>
        requireFreshWebAuthn now handler req st = handler req st)"
proof (intro impI conjI)
  assume clock: "5 * 60 * 1000 < now"
  assume stale: "lastUVAt (getSession (sessions st) req) = None \<or>
      (\<exists>t. lastUVAt (getSession (sessions st) req) = Some t \<and> now - t > 5 * 60 * 1000)"
  show "requireFreshWebAuthn now handler req st = (Inl Forbidden, st)"
  proof (cases "lastUVAt (getSession (sessions st) req)")
    case None
    then show ?thesis by (simp add: requireFreshWebAuthn_def)
  next
    case (Some t)
    with stale have "now - t > 5 * 60 * 1000" by simp
    with Some show ?thesis
      by (simp add: requireFreshWebAuthn_def FRESH_WEBAUTHN_TTL_def)
  qed
next
  assume clock: "5 * 60 * 1000 < now"
  assume "\<exists>t. lastUVAt (getSession (sessions st) req) = Some t \<and> now - t \<le> 5 * 60 * 1000"
  then obtain t where t: "lastUVAt (getSession (sessions st) req) = Some t"
    and fresh: "now - t \<le> 5 * 60 * 1000" by blast
  from clock fresh have "t \<noteq> 0" by auto
  with t fresh show "requireFreshWebAuthn now handler req st = handler req st"
    by (simp add: requireFreshWebAuthn_def FRESH_WEBAUTHN_TTL_def)
qed

lemma cookie_session: "getSession (sessions api0) cookie_request =
    \<lparr>session_userId = Some ''u1'', session_challenge = None, lastUVAt = Some 1000000\<rparr>"
  by (simp add: getSession_def getSessionId_def cookie_request_def api0_def)

lemma plain_session: "getSession (sessions api0) plain_request = empty_session"
  by (simp add: getSession_def getSessionId_def plain_request_def)

theorem fresh_webauthn_gate_witness:
  "(5 * 60 * 1000 < (1300001::int)) \<and>
   lastUVAt (getSession (sessions api0) plain_request) = None \<and>
   requireFreshWebAuthn 1300001 counting_handler plain_request api0 = (Inl Forbidden, api0) \<and>
   lastUVAt (getSession (sessions api0) cookie_request) = Some 1000000 \<and>
   requireFreshWebAuthn 1300001 counting_handler cookie_request api0 = (Inl Forbidden, api0) \<and>
   requireFreshWebAuthn 1300000 counting_handler cookie_request api0
     = counting_handler cookie_request api0"
proof -
  have a: "5 * 60 * 1000 < (1300001::int)" and a': "5 * 60 * 1000 < (1300000::int)" by simp_all
  have p: "lastUVAt (getSession (sessions api0) plain_request) = None"
    by (simp add: plain_session empty_session_def)
  have c: "lastUVAt (getSession (sessions api0) cookie_request) = Some 1000000"
    by (simp add: cookie_session)
  have stale: "(1300001::int) - 1000000 > 5 * 60 * 1000" by simp
  have fresh: "(1300000::int) - 1000000 \<le> 5 * 60 * 1000" by simp
  have r1: "requireFreshWebAuthn 1300001 counting_handler plain_request api0 = (Inl Forbidden, api0)"
    using fresh_webauthn_gate[where now = 1300001 and st = api0 and req = plain_request
        and handler = counting_handler] a p by blast
  have r2: "requireFreshWebAuthn 1300001 counting_handler cookie_request api0 = (Inl Forbidden, api0)"
    using fresh_webauthn_gate[where now = 1300001 and st = api0 and req = cookie_request
        and handler = counting_handler] a c stale by blast
  have r3: "requireFreshWebAuthn 1300000 counting_handler cookie_request api0
     = counting_handler cookie_request api0"
    using fresh_webauthn_gate[where now = 1300000 and st = api0 and req = cookie_request
        and handler = counting_handler] a' c fresh by blast
  show ?thesis using a p c r1 r2 r3 by blast
qed

subsection \<open>Kill switch\<close>

text \<open>
  C10. With the kill switch on, a request to one of the three unlock routes is answered
  with \<open>ServiceUnavailable\<close> and the state of the API layer, the counters of both rate
  limiters included, is exactly what it was. (With the switch off the same request is
  counted, as the instance after the theorem shows.)
\<close>

theorem kill_switch_before_rate_limit:
  "killSwitch st \<and>
   http_method req @ '':'' @ pathname req \<in>
     {''POST:/unlock/pin'', ''POST:/unlock/webauthn/challenge'', ''POST:/unlock/webauthn/finish''} \<longrightarrow>
     handleRequest now uuid hs req st = (Some (Inl ServiceUnavailable), st) \<and>
     store (unlockRateLimiter (snd (handleRequest now uuid hs req st))) = store (unlockRateLimiter st) \<and>
     store (exportRateLimiter (snd (handleRequest now uuid hs req st))) = store (exportRateLimiter st)"
proof (intro impI)
  assume h: "killSwitch st \<and>
   http_method req @ '':'' @ pathname req \<in>
     {''POST:/unlock/pin'', ''POST:/unlock/webauthn/challenge'', ''POST:/unlock/webauthn/finish''}"
  then obtain inner :: "('a, 'b) handler" where
    route: "registerHandlers now hs (http_method req @ '':'' @ pathname req)
              = Some (createKillSwitchMiddleware inner)"
    by (auto simp: registerHandlers_def)
  have off: "createKillSwitchMiddleware inner r st = (Inl ServiceUnavailable, st)" for r
    using h by (simp add: createKillSwitchMiddleware_def)
  have "handleRequest now uuid hs req st = (Some (Inl ServiceUnavailable), st)"
    unfolding handleRequest_def route
    by (simp add: createRequestIdMiddleware_def off split: option.splits)
  then show "handleRequest now uuid hs req st = (Some (Inl ServiceUnavailable), st) \<and>
     store (unlockRateLimiter (snd (handleRequest now uuid hs req st))) = store (unlockRateLimiter st) \<and>
     store (exportRateLimiter (snd (handleRequest now uuid hs req st))) = store (exportRateLimiter st)"
    by simp
qed

theorem kill_switch_before_rate_limit_witness:
  "killSwitch (api0\<lparr>killSwitch := True\<rparr>) \<and>
   http_method pin_request @ '':'' @ pathname pin_request = ''POST:/unlock/pin'' \<and>
   handleRequest 1000 ''id-1'' counting_handlers pin_request (api0\<lparr>killSwitch := True\<rparr>)
     = (Some (Inl ServiceUnavailable), api0\<lparr>killSwitch := True\<rparr>) \<and>
   store (unlockRateLimiter (snd (handleRequest 1000 ''id-1'' counting_handlers pin_request
            (api0\<lparr>killSwitch := True\<rparr>)))) ''10.0.0.1'' = None \<and>
   store (unlockRateLimiter (snd (handleRequest 1000 ''id-1'' counting_handlers pin_request api0)))
     ''10.0.0.1'' = Some \<lparr>req_count = 1, startTime = 1000\<rparr>"
proof -
  have a: "killSwitch (api0\<lparr>killSwitch := True\<rparr>)" by simp
  have b: "http_method pin_request @ '':'' @ pathname pin_request = ''POST:/unlock/pin''"
    by (simp add: pin_request_def)
  have r: "handleRequest 1000 ''id-1'' counting_handlers pin_request (api0\<lparr>killSwitch := True\<rparr>)
     = (Some (Inl ServiceUnavailable), api0\<lparr>killSwitch := True\<rparr>)"
    using kill_switch_before_rate_limit[where st = "api0\<lparr>killSwitch := True\<rparr>" and req = pin_request
        and now = 1000 and uuid = "''id-1''" and hs = counting_handlers] a b by simp
  have off: "store (unlockRateLimiter (snd (handleRequest 1000 ''id-1'' counting_handlers pin_request api0)))
     ''10.0.0.1'' = Some \<lparr>req_count = 1, startTime = 1000\<rparr>"
    by (simp add: api0_def pin_request_def counting_handlers_def counting_handler_def
      handleRequest_def registerHandlers_def createRequestIdMiddleware_def
      createKillSwitchMiddleware_def createRateLimitMiddleware_def clientKey_def header_or_def
      limit_def get_limiter_def put_limiter_def Let_def)
  have none: "store (unlockRateLimiter (api0\<lparr>killSwitch := True\<rparr>)) ''10.0.0.1'' = None"
    by (simp add: api0_def)
  show ?thesis using a b r off none by simp
qed

subsection \<open>Rate limiter\<close>

lemma limit_within_window:
  assumes "store rl k = Some \<lparr>req_count = c, startTime = s\<rparr>" and "now \<le> s + windowMs rl"
  shows "limit now k rl =
     (c + 1 > maxRequests rl, rl\<lparr>store := (store rl)(k \<mapsto> \<lparr>req_count = c + 1, startTime = s\<rparr>)\<rparr>)"
  using assms by (simp add: limit_def Let_def)

lemma limit_fresh:
  assumes "store rl k = None"
  shows "limit now k rl =
     (1 > maxRequests rl, rl\<lparr>store := (store rl)(k \<mapsto> \<lparr>req_count = 1, startTime = now\<rparr>)\<rparr>)"
  using assms by (auto simp: limit_def Let_def)

lemma limit_all_within_window:
  assumes "store rl k = Some \<lparr>req_count = c, startTime = s\<rparr>"
    and "\<forall>t\<in>set ts. t \<le> s + windowMs rl"
  shows "fst (limit_all rl k ts) = map (\<lambda>i. c + int i + 1 > maxRequests rl) [0..<length ts]"
  using assms
proof (induction ts arbitrary: rl c)
  case Nil
  then show ?case by simp
next
  case (Cons t ts)
  let ?rl' = "rl\<lparr>store := (store rl)(k \<mapsto> \<lparr>req_count = c + 1, startTime = s\<rparr>)\<rparr>"
  have step: "limit t k rl = (c + 1 > maxRequests rl, ?rl')"
    using Cons.prems by (intro limit_within_window) auto
  have ih: "fst (limit_all ?rl' k ts) = map (\<lambda>i. (c + 1) + int i + 1 > maxRequests ?rl') [0..<length ts]"
    using Cons.prems by (intro Cons.IH) auto
  have shift: "map (\<lambda>i. c + int i + 1 > maxRequests rl) [0..<Suc (length ts)] =
      (c + 1 > maxRequests rl) # map (\<lambda>i. (c + 1) + int i + 1 > maxRequests rl) [0..<length ts]"
    by (auto simp: upt_conv_Cons map_Suc_upt[symmetric] simp del: upt_Suc)
  show ?case using step ih shift by (simp add: split_beta del: upt_Suc)
qed

lemma limit_new_window:
  assumes "store rl k = None \<or> (\<exists>i. store rl k = Some i \<and> startTime i < now - windowMs rl)"
  shows "limit now k rl =
     (1 > maxRequests rl, rl\<lparr>store := (store rl)(k \<mapsto> \<lparr>req_count = 1, startTime = now\<rparr>)\<rparr>)"
  using assms by (auto simp: limit_def Let_def)

lemma limit_all_new_window:
  assumes "store rl k = None \<or> (\<exists>i. store rl k = Some i \<and> startTime i < t1 - windowMs rl)"
    and "\<forall>t\<in>set ts. t \<le> t1 + windowMs rl"
  shows "fst (limit_all rl k (t1 # ts)) = map (\<lambda>i. int i + 1 > maxRequests rl) [0..<Suc (length ts)]"
proof -
  let ?rl' = "rl\<lparr>store := (store rl)(k \<mapsto> \<lparr>req_count = 1, startTime = t1\<rparr>)\<rparr>"
  have first: "limit t1 k rl = (1 > maxRequests rl, ?rl')"
    using assms(1) by (rule limit_new_window)
  have rest: "fst (limit_all ?rl' k ts) = map (\<lambda>i. 1 + int i + 1 > maxRequests ?rl') [0..<length ts]"
    using assms(2) by (intro limit_all_within_window) auto
  have shift: "map (\<lambda>i. int i + 1 > maxRequests rl) [0..<Suc (length ts)] =
      (1 > maxRequests rl) # map (\<lambda>i. 1 + int i + 1 > maxRequests rl) [0..<length ts]"
    by (auto simp: upt_conv_Cons map_Suc_upt[symmetric] simp del: upt_Suc)
  show ?thesis using first rest shift by (simp add: split_beta del: upt_Suc)
qed

text \<open>
  C6, as amended. The limiter counts in fixed windows. A request from a key with no
  record, or with a record whose window began more than \<open>windowMs\<close> before, begins a
  window; of the requests from then until \<open>windowMs\<close> after it, the first \<open>maxRequests\<close>
  are let through and every later one is refused. The middleware answers a refused
  request with \<open>TooManyRequests\<close> without calling the wrapped handler and calls the
  handler otherwise. The three unlock routes share the limiter with 5 per 60000 ms, the
  export route has the one with 2 per 60000 ms. The key is the \<open>x-forwarded-for\<close> header
  if it is present and not empty, else \<open>x-real-ip\<close> if present and not empty, else
  \<open>unknown\<close>.
\<close>

theorem rate_limit_fixed_window:
  "((store rl k = None \<or> (\<exists>i. store rl k = Some i \<and> startTime i < t1 - windowMs rl)) \<and>
    (\<forall>t\<in>set ts. t \<le> t1 + windowMs rl) \<longrightarrow>
      fst (limit_all rl k (t1 # ts)) = map (\<lambda>i. int i + 1 > maxRequests rl) [0..<Suc (length ts)]) \<and>
   createRateLimitMiddleware now r handler req st =
     (if fst (limit now (clientKey req) (get_limiter r st))
      then (Inl TooManyRequests, put_limiter r (snd (limit now (clientKey req) (get_limiter r st))) st)
      else handler req (put_limiter r (snd (limit now (clientKey req) (get_limiter r st))) st)) \<and>
   (registerHandlers now hs ''POST:/unlock/pin'' =
      Some (createKillSwitchMiddleware (createRateLimitMiddleware now UnlockLimiter (unlockPinHandler hs)))) \<and>
   (registerHandlers now hs ''POST:/unlock/webauthn/challenge'' =
      Some (createKillSwitchMiddleware (createRateLimitMiddleware now UnlockLimiter (webauthnChallengeHandler hs)))) \<and>
   (registerHandlers now hs ''POST:/unlock/webauthn/finish'' =
      Some (createKillSwitchMiddleware (createRateLimitMiddleware now UnlockLimiter (webauthnFinishHandler hs)))) \<and>
   (registerHandlers now hs ''GET:/export'' =
      Some (createKillSwitchMiddleware (createRateLimitMiddleware now ExportLimiter
             (requireFreshWebAuthn now (exportHandler hs))))) \<and>
   maxRequests (get_limiter UnlockLimiter (newRouterLimiters st)) = 5 \<and>
   windowMs (get_limiter UnlockLimiter (newRouterLimiters st)) = 60000 \<and>
   maxRequests (get_limiter ExportLimiter (newRouterLimiters st)) = 2 \<and>
   windowMs (get_limiter ExportLimiter (newRouterLimiters st)) = 60000 \<and>
   clientKey req =
     (case headers req ''x-forwarded-for'' of
        Some (c # cs) \<Rightarrow> c # cs
      | _ \<Rightarrow> (case headers req ''x-real-ip'' of Some (c # cs) \<Rightarrow> c # cs | _ \<Rightarrow> ''unknown''))"
proof (intro conjI impI)
  assume "(store rl k = None \<or> (\<exists>i. store rl k = Some i \<and> startTime i < t1 - windowMs rl)) \<and>
    (\<forall>t\<in>set ts. t \<le> t1 + windowMs rl)"
  then show "fst (limit_all rl k (t1 # ts)) = map (\<lambda>i. int i + 1 > maxRequests rl) [0..<Suc (length ts)]"
    using limit_all_new_window[of rl k t1 ts] by blast
next
  show "createRateLimitMiddleware now r handler req st =
     (if fst (limit now (clientKey req) (get_limiter r st))
      then (Inl TooManyRequests, put_limiter r (snd (limit now (clientKey req) (get_limiter r st))) st)
      else handler req (put_limiter r (snd (limit now (clientKey req) (get_limiter r st))) st))"
    by (simp add: createRateLimitMiddleware_def Let_def split_beta)
next
  show "clientKey req =
     (case headers req ''x-forwarded-for'' of
        Some (c # cs) \<Rightarrow> c # cs
      | _ \<Rightarrow> (case headers req ''x-real-ip'' of Some (c # cs) \<Rightarrow> c # cs | _ \<Rightarrow> ''unknown''))"
    by (simp add: clientKey_def header_or_def split: option.splits list.splits)
qed (simp_all add: registerHandlers_def newRouterLimiters_def get_limiter_def)

text \<open>
  C6, as stated, fails: the window is not sliding. Of seven requests to \<open>/unlock/pin\<close> from
  one address, the last six lie within 2 ms of each other, and all seven reach the
  handler: the request at 60001 ms begins a new window.
\<close>

theorem rate_limit_not_sliding:
  "fst (serve ''id'' counting_handlers burst api0) =
     [Some (Inr ''ok''), Some (Inr ''ok''), Some (Inr ''ok''), Some (Inr ''ok''),
      Some (Inr ''ok''), Some (Inr ''ok''), Some (Inr ''ok'')] \<and>
   app (snd (serve ''id'' counting_handlers burst api0)) = 7 \<and>
   map fst burst = [0, 59999, 59999, 59999, 59999, 60001, 60001] \<and>
   set (map (\<lambda>(t, req). (http_method req @ '':'' @ pathname req, clientKey req)) burst)
     = {(''POST:/unlock/pin'', ''10.0.0.1'')}"
  by (simp add: burst_def api0_def pin_request_def counting_handlers_def counting_handler_def
      handleRequest_def registerHandlers_def createRequestIdMiddleware_def
      createKillSwitchMiddleware_def createRateLimitMiddleware_def clientKey_def header_or_def
      limit_def get_limiter_def put_limiter_def Let_def)

theorem rate_limit_fixed_window_witness:
  "store (unlockRateLimiter api0) ''10.0.0.1'' = None \<and>
   fst (limit_all (unlockRateLimiter api0) ''10.0.0.1'' [0, 10, 20, 30, 40, 60000, 60000])
     = [False, False, False, False, False, True, True] \<and>
   fst (limit_all (exportRateLimiter api0) ''10.0.0.1'' [0, 10, 60000])
     = [False, False, True] \<and>
   fst (serve ''id'' counting_handlers six_requests api0) =
     [Some (Inr ''ok''), Some (Inr ''ok''), Some (Inr ''ok''), Some (Inr ''ok''),
      Some (Inr ''ok''), Some (Inl TooManyRequests)] \<and>
   app (snd (serve ''id'' counting_handlers six_requests api0)) = 5"
proof -
  have a: "store (unlockRateLimiter api0) ''10.0.0.1'' = None" by (simp add: api0_def)
  have a': "store (exportRateLimiter api0) ''10.0.0.1'' = None" by (simp add: api0_def)
  have b: "\<forall>t\<in>set [10, 20, 30, 40, 60000, 60000]. t \<le> 0 + windowMs (unlockRateLimiter api0)"
    by (simp add: api0_def)
  have b': "\<forall>t\<in>set [10, 60000]. t \<le> 0 + windowMs (exportRateLimiter api0)"
    by (simp add: api0_def)
  have "fst (limit_all (unlockRateLimiter api0) ''10.0.0.1'' (0 # [10, 20, 30, 40, 60000, 60000]))
      = map (\<lambda>i. int i + 1 > maxRequests (unlockRateLimiter api0))
          [0..<Suc (length [10, 20, 30, 40, 60000, 60000 :: int])]"
    using rate_limit_fixed_window[where rl = "unlockRateLimiter api0" and k = "''10.0.0.1''"
        and ?t1.0 = 0 and ts = "[10, 20, 30, 40, 60000, 60000]"] a b by blast
  then have c: "fst (limit_all (unlockRateLimiter api0) ''10.0.0.1'' [0, 10, 20, 30, 40, 60000, 60000])
     = [False, False, False, False, False, True, True]"
    by (simp add: api0_def)
  have "fst (limit_all (exportRateLimiter api0) ''10.0.0.1'' (0 # [10, 60000]))
      = map (\<lambda>i. int i + 1 > maxRequests (exportRateLimiter api0)) [0..<Suc (length [10, 60000 :: int])]"
    using rate_limit_fixed_window[where rl = "exportRateLimiter api0" and k = "''10.0.0.1''"
        and ?t1.0 = 0 and ts = "[10, 60000]"] a' b' by blast
  then have c': "fst (limit_all (exportRateLimiter api0) ''10.0.0.1'' [0, 10, 60000])
     = [False, False, True]"
    by (simp add: api0_def)
  have d: "fst (serve ''id'' counting_handlers six_requests api0) =
     [Some (Inr ''ok''), Some (Inr ''ok''), Some (Inr ''ok''), Some (Inr ''ok''),
      Some (Inr ''ok''), Some (Inl TooManyRequests)] \<and>
   app (snd (serve ''id'' counting_handlers six_requests api0)) = 5"
    by (simp add: six_requests_def api0_def pin_request_def counting_handlers_def counting_handler_def
      handleRequest_def registerHandlers_def createRequestIdMiddleware_def
      createKillSwitchMiddleware_def createRateLimitMiddleware_def clientKey_def header_or_def
      limit_def get_limiter_def put_limiter_def Let_def)
  show ?thesis using a c c' d by blast
qed

subsection \<open>Asynchronous writer\<close>

lemma loop_head_busy: "queue w \<noteq> [] \<Longrightarrow> running w \<Longrightarrow> running (loop_head w)"
  by (simp add: loop_head_def split: list.splits)

lemma loop_head_idle: "queue w = [] \<Longrightarrow> queue (loop_head w) = []"
  by (simp add: loop_head_def)

lemma reachable_busy_or_empty: "reachable w \<Longrightarrow> running w \<or> queue w = []"
proof (induction rule: reachable.induct)
  case (constructed maxSize)
  then show ?case by (simp add: newAsyncDbWriter_def)
next
  case (enqueued w job)
  then show ?case
    by (auto simp: enqueue_def Let_def processQueue_def loop_head_def split: list.splits)
next
  case (timer_tick w)
  then show ?case by (auto simp: processQueue_def)
next
  case (settled w)
  then show ?case by (auto simp: job_settled_def loop_head_def split: list.splits)
next
  case (disposed w)
  then show ?case by (auto simp: dispose_def Let_def)
qed

lemma enqueue_accepts:
  assumes "length (queue w) < maxQueueSize w"
  shows "fst (enqueue job w) = True \<and>
         droppedJobs (snd (enqueue job w)) = droppedJobs w \<and>
         started (snd (enqueue job w)) @ queue (snd (enqueue job w)) = started w @ queue w @ [job]"
proof (cases "running w")
  case True
  then show ?thesis using assms by (simp add: enqueue_def Let_def processQueue_def)
next
  case False
  then show ?thesis using assms
    by (cases "queue w") (simp_all add: enqueue_def Let_def processQueue_def loop_head_def)
qed

text \<open>
  C8. \<open>enqueue\<close> behaves as claimed: on a queue that holds \<open>maxQueueSize\<close> jobs it returns
  false, counts the drop and leaves the queue alone; otherwise it returns true and the job
  is appended (and, when no loop is running, called at once). The claim about \<open>dispose\<close>
  fails: in every reachable state a loop is running or the queue is empty, so the one
  call of \<open>processQueue\<close> that \<open>dispose\<close> awaits returns at once, and \<open>dispose\<close> returns
  having cleared the timer and processed nothing, whatever is still queued.
\<close>

theorem dispose_returns_without_flushing:
  "(length (queue w) \<ge> maxQueueSize w \<longrightarrow>
      enqueue job w = (False, w\<lparr>totalJobs := totalJobs w + 1, queueDepth := length (queue w),
                                droppedJobs := droppedJobs w + 1\<rparr>)) \<and>
   (length (queue w) < maxQueueSize w \<longrightarrow>
      fst (enqueue job w) = True \<and>
      droppedJobs (snd (enqueue job w)) = droppedJobs w \<and>
      started (snd (enqueue job w)) @ queue (snd (enqueue job w)) = started w @ queue w @ [job]) \<and>
   (reachable w \<longrightarrow> dispose w = w\<lparr>intervalId := None\<rparr>)"
proof (intro conjI impI)
  assume "length (queue w) \<ge> maxQueueSize w"
  then show "enqueue job w = (False, w\<lparr>totalJobs := totalJobs w + 1, queueDepth := length (queue w),
                                droppedJobs := droppedJobs w + 1\<rparr>)"
    by (simp add: enqueue_def Let_def)
next
  assume a: "length (queue w) < maxQueueSize w"
  show "fst (enqueue job w) = True" using enqueue_accepts[OF a] by blast
  show "droppedJobs (snd (enqueue job w)) = droppedJobs w" using enqueue_accepts[OF a] by blast
  show "started (snd (enqueue job w)) @ queue (snd (enqueue job w)) = started w @ queue w @ [job]"
    using enqueue_accepts[OF a] by blast
next
  assume "reachable w"
  then have "running w \<or> queue w = []" by (rule reachable_busy_or_empty)
  then show "dispose w = w\<lparr>intervalId := None\<rparr>" by (auto simp: dispose_def Let_def)
qed

lemma busy_writer_eq:
  "busy_writer = (newAsyncDbWriter 1000)\<lparr>queue := [2], running := True, started := [1],
      totalJobs := 2, queueDepth := 0\<rparr>"
  by (simp add: busy_writer_def enqueue_def processQueue_def loop_head_def newAsyncDbWriter_def Let_def)

theorem dispose_returns_without_flushing_witness:
  "reachable busy_writer \<and>
   running busy_writer \<and> queue busy_writer = [2] \<and> started busy_writer = [1] \<and>
   dispose busy_writer = busy_writer\<lparr>intervalId := None\<rparr> \<and>
   queue (dispose busy_writer) = [2] \<and> started (dispose busy_writer) = [1] \<and>
   length (queue full_writer) \<ge> maxQueueSize full_writer \<and>
   fst (enqueue 7 full_writer) = False \<and>
   queue (snd (enqueue 7 full_writer)) = queue full_writer \<and>
   droppedJobs (snd (enqueue 7 full_writer)) = droppedJobs full_writer + 1 \<and>
   length (queue busy_writer) < maxQueueSize busy_writer \<and>
   fst (enqueue 3 busy_writer) = True \<and>
   queue (snd (enqueue 3 busy_writer)) = [2, 3]"
proof -
  have r: "reachable busy_writer"
    unfolding busy_writer_def by (intro reachable.enqueued reachable.constructed)
  have s: "running busy_writer \<and> queue busy_writer = [2] \<and> started busy_writer = [1]"
    by (simp add: busy_writer_eq)
  have d: "dispose busy_writer = busy_writer\<lparr>intervalId := None\<rparr>"
    using dispose_returns_without_flushing[where w = busy_writer] r by blast
  have f: "length (queue full_writer) \<ge> maxQueueSize full_writer"
    by (simp add: full_writer_def newAsyncDbWriter_def)
  have e: "enqueue 7 full_writer = (False, full_writer\<lparr>totalJobs := totalJobs full_writer + 1,
      queueDepth := length (queue full_writer), droppedJobs := droppedJobs full_writer + 1\<rparr>)"
    using dispose_returns_without_flushing[where w = full_writer and job = 7] f by blast
  have l: "length (queue busy_writer) < maxQueueSize busy_writer"
    by (simp add: busy_writer_eq newAsyncDbWriter_def)
  have t: "fst (enqueue 3 busy_writer) = True \<and>
      started (snd (enqueue 3 busy_writer)) @ queue (snd (enqueue 3 busy_writer))
        = started busy_writer @ queue busy_writer @ [3]"
    using dispose_returns_without_flushing[where w = busy_writer and job = 3] l by blast
  have q: "queue (snd (enqueue 3 busy_writer)) = [2, 3]"
    by (simp add: busy_writer_eq enqueue_def processQueue_def newAsyncDbWriter_def Let_def)
  show ?thesis using r s d f l t q by (simp add: e)
qed

end
